theory Spec2Isabelle
  imports Complex_Main "HOL-Library.Word"
begin

unbundle bit_operations_syntax

section \<open>Mark termination state (zMarkTerminateState.hpp, zMarkTerminate.cpp)\<close>

text \<open>
  The termination state is one 64-bit word: bits 31-0 hold the active stripe flags,
  bits 63-32 the number of active workers. A stripe map is read through \<open>get()\<close> as a
  32-bit word of stripe flags. The \<open>ZBitField\<close> template that packs the two fields is
  declared outside the files at hand; the encoders and decoders below follow the layout
  drawn in zMarkTerminateState.hpp (a 32-bit field at shift 0 and a 32-bit field at
  shift 32).
\<close>

type_synonym ZMarkStripeMap = "32 word"

definition ZMarkTerminateState :: "32 word \<Rightarrow> 32 word \<Rightarrow> 64 word" where
  "ZMarkTerminateState nactive active = push_bit 32 (ucast nactive) OR ucast active"

definition active_stripes :: "64 word \<Rightarrow> 32 word" where
  "active_stripes s = ucast (take_bit 32 s)"

definition nactive_workers :: "64 word \<Rightarrow> 32 word" where
  "nactive_workers s = ucast (take_bit 32 (drop_bit 32 s))"

definition is_cleared :: "64 word \<Rightarrow> bool" where
  "is_cleared s \<longleftrightarrow> s = 0"

text \<open>\<open>static const uint _terminate = (uint)-1\<close>\<close>

definition terminate :: "32 word" where
  "terminate = - 1"

text \<open>
  Every operation of \<open>ZMarkTerminate\<close> is a compare-and-swap retry loop on the shared
  word. A retry re-reads the word and runs the same body again, so the effect of a call is
  the body applied once, atomically, to the value it finally succeeds on: the functions
  below take that value and return the result together with the new word.

  A failed \<open>assert\<close> is the error \<open>Invalid_state\<close>.
\<close>

datatype mt_error = Invalid_state

definition reset :: "32 word \<Rightarrow> 64 word" where
  "reset nworkers = ZMarkTerminateState nworkers 0"

definition set_active_stripes :: "ZMarkStripeMap \<Rightarrow> 64 word \<Rightarrow> 64 word" where
  "set_active_stripes stripe_map old_state =
     (let old_active_stripes = active_stripes old_state;
          new_active_stripes = old_active_stripes OR stripe_map
      in if new_active_stripes = old_active_stripes then old_state
         else ZMarkTerminateState (nactive_workers old_state) new_active_stripes)"

definition has_active_stripes :: "64 word \<Rightarrow> bool" where
  "has_active_stripes s \<longleftrightarrow> active_stripes s \<noteq> 0"

definition enter_idle_mode :: "ZMarkStripeMap \<Rightarrow> 64 word \<Rightarrow> mt_error + (bool \<times> 64 word)" where
  "enter_idle_mode stripe_map old_state =
     (if is_cleared old_state then Inl Invalid_state
      else
        let old_active_stripes = active_stripes old_state;
            new_active_stripes = old_active_stripes AND NOT stripe_map;
            should_idle = (new_active_stripes = old_active_stripes);
            old_nactive_workers = nactive_workers old_state;
            new_nactive_workers = (if should_idle then old_nactive_workers - 1 else old_nactive_workers)
        in Inr (should_idle, ZMarkTerminateState new_nactive_workers new_active_stripes))"

text \<open>
  In \<open>exit_idle_mode\<close> the assertion \<open>!old_state.is_cleared()\<close> stands behind the
  test that some selected stripe flag is set, so it cannot fail there (lemma
  \<open>exit_idle_mode_assertion\<close> below) and the function has no error result.
\<close>

definition exit_idle_mode :: "ZMarkStripeMap \<Rightarrow> 64 word \<Rightarrow> bool \<times> 64 word" where
  "exit_idle_mode stripe_map old_state =
     (let old_active_stripes = active_stripes old_state
      in if old_active_stripes AND stripe_map = 0 then (False, old_state)
         else
           let old_nactive_workers = nactive_workers old_state
           in if old_nactive_workers = terminate then (False, old_state)
              else
                let new_nactive_workers = old_nactive_workers + 1
                in (True, ZMarkTerminateState new_nactive_workers old_active_stripes))"

definition enter_terminate_mode :: "64 word \<Rightarrow> bool \<times> 64 word" where
  "enter_terminate_mode old_state =
     (let old_nactive_workers = nactive_workers old_state
      in if old_nactive_workers = terminate then (True, old_state)
         else
           let old_active_stripes = active_stripes old_state
           in if old_nactive_workers \<noteq> 0 \<or> old_active_stripes \<noteq> 0 then (False, old_state)
              else (True, ZMarkTerminateState terminate 0))"

text \<open>
  The wait loop of \<open>idle\<close>, and the threads around it. The word is shared by the
  workers of a mark task and by the threads that flush mark stacks; each call above is one
  atomic step on it, and the steps of different threads interleave in any order.

  A worker running \<open>ZMark::work\<close> is at one of five places: \<open>Working\<close> (in the loop
  of \<open>work\<close> and outside \<open>idle\<close>: draining, publishing, stealing),
  \<open>Idle_terminate\<close> (in the loop of \<open>idle\<close>, about to call
  \<open>enter_terminate_mode\<close>), \<open>Idle_exit\<close> (in that loop, about to call
  \<open>exit_idle_mode\<close>), \<open>Terminated\<close> (\<open>idle\<close> has returned true and \<open>work\<close> has
  left its loop) and \<open>Timed_out\<close> (\<open>drain\<close> has timed out and \<open>work\<close> has left its
  loop).
\<close>

datatype worker_pc = Working | Idle_terminate | Idle_exit | Terminated | Timed_out

text \<open>
  \<open>idle_step\<close> is the next atomic step of \<open>idle\<close> for a worker at the given place.
  A working worker enters \<open>idle\<close> with the call of \<open>enter_idle_mode\<close>; if that returns
  false \<open>idle\<close> returns false at once and the worker is working again. In the loop the
  worker calls \<open>enter_terminate_mode\<close> (true: \<open>idle\<close> returns true) and
  \<open>exit_idle_mode\<close> (true: \<open>idle\<close> returns false and the worker is working again;
  false: it sleeps and goes round the loop) in turn.
\<close>

definition idle_step :: "ZMarkStripeMap \<Rightarrow> worker_pc \<Rightarrow> 64 word \<Rightarrow> mt_error + (worker_pc \<times> 64 word)" where
  "idle_step stripe_map pc s =
     (case pc of
        Working \<Rightarrow>
          (case enter_idle_mode stripe_map s of
             Inl err \<Rightarrow> Inl err
           | Inr (should_idle, s') \<Rightarrow> Inr (if should_idle then Idle_terminate else Working, s'))
      | Idle_terminate \<Rightarrow>
          Inr (if fst (enter_terminate_mode s) then Terminated else Idle_exit,
               snd (enter_terminate_mode s))
      | Idle_exit \<Rightarrow>
          Inr (if fst (exit_idle_mode stripe_map s) then Working else Idle_terminate,
               snd (exit_idle_mode stripe_map s))
      | Terminated \<Rightarrow> Inr (Terminated, s)
      | Timed_out \<Rightarrow> Inr (Timed_out, s))"

text \<open>
  A mark task is the shared word together with the places of its workers. The constructor
  of \<open>ZMarkTask\<close> resets the word to the number of workers the task is run with, and
  every worker starts in \<open>work\<close>. The threads act in any order: \<open>Publish m\<close> is a
  call of \<open>set_active_stripes\<close> by any thread (\<open>ZMark::publish\<close>, called by a worker
  in \<open>drain_and_publish\<close> and by the flush of a thread's stacks), \<open>Idle i\<close> is the
  next step of \<open>idle\<close> by worker \<open>i\<close>, which enters \<open>idle\<close> if the worker is
  working, and \<open>Timeout i\<close> is the timeout of worker \<open>i\<close>. An action of a worker
  that does not exist or has left \<open>work\<close>, and a timeout of a worker inside \<open>idle\<close>,
  change nothing. \<open>run\<close> performs a schedule, a list of actions; it fails when an
  assertion fails.
\<close>

record mark_task =
  tstate :: "64 word"
  tworkers :: "worker_pc list"

datatype mark_action = Publish ZMarkStripeMap | Idle nat | Timeout nat

fun perform :: "(nat \<Rightarrow> ZMarkStripeMap) \<Rightarrow> mark_action \<Rightarrow> mark_task \<Rightarrow> mt_error + mark_task" where
  "perform maps (Publish m) t = Inr (t\<lparr>tstate := set_active_stripes m (tstate t)\<rparr>)"
| "perform maps (Idle i) t =
     (if i < length (tworkers t) then
        (case idle_step (maps i) (tworkers t ! i) (tstate t) of
           Inl err \<Rightarrow> Inl err
         | Inr (pc, s) \<Rightarrow> Inr \<lparr>tstate = s, tworkers = (tworkers t)[i := pc]\<rparr>)
      else Inr t)"
| "perform maps (Timeout i) t =
     (if i < length (tworkers t) \<and> tworkers t ! i = Working
      then Inr (t\<lparr>tworkers := (tworkers t)[i := Timed_out]\<rparr>)
      else Inr t)"

fun run :: "(nat \<Rightarrow> ZMarkStripeMap) \<Rightarrow> mark_action list \<Rightarrow> mark_task \<Rightarrow> mt_error + mark_task" where
  "run maps [] t = Inr t"
| "run maps (a # as) t =
     (case perform maps a t of
        Inl err \<Rightarrow> Inl err
      | Inr t' \<Rightarrow> run maps as t')"

definition start_task :: "32 word \<Rightarrow> mark_task" where
  "start_task nworkers = \<lparr>tstate = reset nworkers, tworkers = replicate (unat nworkers) Working\<rparr>"

text \<open>
  What holds of a mark task throughout a run: while the worker count is not the sentinel
  it is the number of workers that have not entered the wait loop (working or timed out);
  once it is the sentinel no such worker is left. \<open>idle_progress\<close> relates the place of
  a worker inside \<open>idle\<close> to a later place on the way to returning true.
\<close>

definition active_pc :: "worker_pc \<Rightarrow> bool" where
  "active_pc pc \<longleftrightarrow> pc = Working \<or> pc = Timed_out"

definition terminating :: "mark_task \<Rightarrow> bool" where
  "terminating t \<longleftrightarrow> nactive_workers (tstate t) = terminate"

definition task_inv :: "mark_task \<Rightarrow> bool" where
  "task_inv t \<longleftrightarrow>
     length (tworkers t) < 2 ^ 32 - 1
     \<and> (if terminating t then \<forall>pc \<in> set (tworkers t). \<not> active_pc pc
        else unat (nactive_workers (tstate t)) = length (filter active_pc (tworkers t)))"

definition idle_progress :: "worker_pc \<Rightarrow> worker_pc \<Rightarrow> bool" where
  "idle_progress pc pc' \<longleftrightarrow>
     pc' = pc \<or> (pc = Idle_terminate \<and> pc' = Terminated) \<or> (pc = Idle_exit \<and> pc' = Idle_terminate)
     \<or> (pc = Idle_exit \<and> pc' = Terminated)"


section \<open>Double-precision arithmetic\<close>

text \<open>
  The director computes with \<open>double\<close>. A \<open>double\<close> is an IEEE 754 binary64 number:
  \<open>Finite s m e\<close> stands for \<open>(-1)^s * m * 2^e\<close>, \<open>Infinity s\<close> for the infinity of that
  sign, \<open>NaN\<close> for a not-a-number. The results of the operations are normalised: the
  significand \<open>m\<close> lies in \<open>[2^52, 2^53)\<close> with \<open>-1074 \<le> e \<le> 971\<close>, or below \<open>2^52\<close>
  with \<open>e = -1074\<close> (subnormal numbers and the two zeros).

  Every operation takes the exact result, a quotient of two integers scaled by a power of
  two, and rounds it once to the nearest representable number, ties to the even
  significand: the default rounding mode, which HotSpot leaves in place. A product and a
  sum that follows it are rounded separately (no fused multiply-add).

  \<open>round_double s p q E\<close> rounds \<open>(-1)^s * (p / q) * 2^E\<close>. \<open>bitlen\<close> is the length of a
  number in bits, \<open>floor_log2 p q\<close> the integer part of the binary logarithm of \<open>p / q\<close>.
\<close>

datatype double = Finite bool nat int | Infinity bool | NaN

fun bitlen :: "nat \<Rightarrow> nat" where
  "bitlen n = (if n = 0 then 0 else bitlen (n div 2) + 1)"

declare bitlen.simps [simp del]

definition ge_pow2 :: "nat \<Rightarrow> nat \<Rightarrow> int \<Rightarrow> bool" where
  "ge_pow2 p q k = (if 0 \<le> k then q * 2 ^ nat k \<le> p else q \<le> p * 2 ^ nat (- k))"

definition floor_log2_from :: "nat \<Rightarrow> nat \<Rightarrow> int \<Rightarrow> int" where
  "floor_log2_from p q k = (if ge_pow2 p q k then k else k - 1)"

definition floor_log2 :: "nat \<Rightarrow> nat \<Rightarrow> int" where
  "floor_log2 p q = floor_log2_from p q (int (bitlen p) - int (bitlen q))"

definition nearest_even :: "nat \<Rightarrow> nat \<Rightarrow> nat \<Rightarrow> nat" where
  "nearest_even n0 r den = (if den < 2 * r \<or> (2 * r = den \<and> odd n0) then n0 + 1 else n0)"

definition pack :: "bool \<Rightarrow> int \<Rightarrow> nat \<Rightarrow> double" where
  "pack s e n =
     (if n = 2 ^ 53 then (if 971 < e + 1 then Infinity s else Finite s (2 ^ 52) (e + 1))
      else if 971 < e then Infinity s
      else Finite s n e)"

definition round_quotient :: "bool \<Rightarrow> int \<Rightarrow> nat \<Rightarrow> nat \<Rightarrow> double" where
  "round_quotient s e num den = pack s e (nearest_even (num div den) (num mod den) den)"

definition round_at :: "bool \<Rightarrow> nat \<Rightarrow> nat \<Rightarrow> int \<Rightarrow> int \<Rightarrow> double" where
  "round_at s p q E e =
     (if e \<le> E then round_quotient s e (p * 2 ^ nat (E - e)) q
      else round_quotient s e p (q * 2 ^ nat (e - E)))"

definition round_double :: "bool \<Rightarrow> nat \<Rightarrow> nat \<Rightarrow> int \<Rightarrow> double" where
  "round_double s p q E =
     (if p = 0 then Finite s 0 (- 1074)
      else round_at s p q E (max (floor_log2 p q + E - 52) (- 1074)))"

text \<open>
  The conversion of an unsigned integer to \<open>double\<close>, and a decimal literal of the
  source: \<open>double_of_decimal 3290527 6\<close> is the constant \<open>3.290527\<close>.
\<close>

definition double_of_nat :: "nat \<Rightarrow> double" where
  "double_of_nat n = round_double False n 1 0"

definition double_of_decimal :: "nat \<Rightarrow> nat \<Rightarrow> double" where
  "double_of_decimal digits places = round_double False digits (10 ^ places) 0"

definition scaled :: "int \<Rightarrow> bool \<Rightarrow> nat \<Rightarrow> int \<Rightarrow> int" where
  "scaled e0 s m e = (if s then - 1 else 1) * int m * 2 ^ nat (e - e0)"

definition round_sum :: "int \<Rightarrow> int \<Rightarrow> double" where
  "round_sum e0 c =
     (if c = 0 then Finite False 0 (- 1074) else round_double (c < 0) (nat \<bar>c\<bar>) 1 e0)"

text \<open>
  A zero added to a number leaves the number as it is, two zeros give the zero of their
  common sign and a positive zero otherwise; a sum that cancels is the positive zero.
\<close>

fun fadd :: "double \<Rightarrow> double \<Rightarrow> double" where
  "fadd (Finite s1 m1 e1) (Finite s2 m2 e2) =
     (if m1 = 0 \<and> m2 = 0 then Finite (s1 \<and> s2) 0 (- 1074)
      else if m1 = 0 then Finite s2 m2 e2
      else if m2 = 0 then Finite s1 m1 e1
      else round_sum (min e1 e2) (scaled (min e1 e2) s1 m1 e1 + scaled (min e1 e2) s2 m2 e2))"
| "fadd (Finite s1 m1 e1) (Infinity s2) = Infinity s2"
| "fadd (Infinity s1) (Finite s2 m2 e2) = Infinity s1"
| "fadd (Infinity s1) (Infinity s2) = (if s1 = s2 then Infinity s1 else NaN)"
| "fadd NaN y = NaN"
| "fadd x NaN = NaN"

fun fneg :: "double \<Rightarrow> double" where
  "fneg (Finite s m e) = Finite (\<not> s) m e"
| "fneg (Infinity s) = Infinity (\<not> s)"
| "fneg NaN = NaN"

definition fsub :: "double \<Rightarrow> double \<Rightarrow> double" where
  "fsub x y = fadd x (fneg y)"

fun fmul :: "double \<Rightarrow> double \<Rightarrow> double" where
  "fmul (Finite s1 m1 e1) (Finite s2 m2 e2) = round_double (s1 \<noteq> s2) (m1 * m2) 1 (e1 + e2)"
| "fmul (Finite s1 m1 e1) (Infinity s2) = (if m1 = 0 then NaN else Infinity (s1 \<noteq> s2))"
| "fmul (Infinity s1) (Finite s2 m2 e2) = (if m2 = 0 then NaN else Infinity (s1 \<noteq> s2))"
| "fmul (Infinity s1) (Infinity s2) = Infinity (s1 \<noteq> s2)"
| "fmul NaN y = NaN"
| "fmul x NaN = NaN"

fun fdiv :: "double \<Rightarrow> double \<Rightarrow> double" where
  "fdiv (Finite s1 m1 e1) (Finite s2 m2 e2) =
     (if m2 = 0 then (if m1 = 0 then NaN else Infinity (s1 \<noteq> s2))
      else round_double (s1 \<noteq> s2) m1 m2 (e1 - e2))"
| "fdiv (Finite s1 m1 e1) (Infinity s2) = Finite (s1 \<noteq> s2) 0 (- 1074)"
| "fdiv (Infinity s1) (Finite s2 m2 e2) = Infinity (s1 \<noteq> s2)"
| "fdiv (Infinity s1) (Infinity s2) = NaN"
| "fdiv NaN y = NaN"
| "fdiv x NaN = NaN"

text \<open>The comparisons \<open><\<close> and \<open><=\<close>; every comparison with a NaN is false.\<close>

fun fless :: "double \<Rightarrow> double \<Rightarrow> bool" where
  "fless (Finite s1 m1 e1) (Finite s2 m2 e2) =
     (scaled (min e1 e2) s1 m1 e1 < scaled (min e1 e2) s2 m2 e2)"
| "fless (Finite s1 m1 e1) (Infinity s2) = (\<not> s2)"
| "fless (Infinity s1) (Finite s2 m2 e2) = s1"
| "fless (Infinity s1) (Infinity s2) = (s1 \<and> \<not> s2)"
| "fless NaN y = False"
| "fless x NaN = False"

fun fle :: "double \<Rightarrow> double \<Rightarrow> bool" where
  "fle (Finite s1 m1 e1) (Finite s2 m2 e2) =
     (scaled (min e1 e2) s1 m1 e1 \<le> scaled (min e1 e2) s2 m2 e2)"
| "fle (Finite s1 m1 e1) (Infinity s2) = (\<not> s2)"
| "fle (Infinity s1) (Finite s2 m2 e2) = s1"
| "fle (Infinity s1) (Infinity s2) = (s1 \<or> \<not> s2)"
| "fle NaN y = False"
| "fle x NaN = False"

definition fgt :: "double \<Rightarrow> double \<Rightarrow> bool" where
  "fgt x y = fless y x"

definition fge :: "double \<Rightarrow> double \<Rightarrow> bool" where
  "fge x y = fle y x"

definition is_nan :: "double \<Rightarrow> bool" where
  "is_nan x \<longleftrightarrow> x = NaN"

text \<open>
  \<open>MAX2\<close> and \<open>MIN2\<close> are HotSpot's helpers of globalDefinitions.hpp,
  \<open>(a > b) ? a : b\<close> and \<open>(a < b) ? a : b\<close>.
\<close>

definition MAX2 :: "double \<Rightarrow> double \<Rightarrow> double" where
  "MAX2 a b = (if fgt a b then a else b)"

definition MIN2 :: "double \<Rightarrow> double \<Rightarrow> double" where
  "MIN2 a b = (if fless a b then a else b)"

text \<open>\<open>ceil\<close> of the C library: the least integral value not below the argument.\<close>

definition ceil_parts :: "bool \<Rightarrow> nat \<Rightarrow> nat \<Rightarrow> double" where
  "ceil_parts s q r = round_double s (if \<not> s \<and> 0 < r then q + 1 else q) 1 0"

fun fceil :: "double \<Rightarrow> double" where
  "fceil (Finite s m e) =
     (if 0 \<le> e then Finite s m e
      else ceil_parts s (m div 2 ^ nat (- e)) (m mod 2 ^ nat (- e)))"
| "fceil (Infinity s) = Infinity s"
| "fceil NaN = NaN"

text \<open>
  The conversion of a \<open>double\<close> to an unsigned integer truncates towards zero. C++
  defines the result only when the truncated value is a value of the target type. For the
  other arguments the model returns what the instructions of an x86-64 build return: the
  conversion to \<open>uint\<close> is a \<open>cvttsd2si\<close> to a 64-bit register, of which the low 32
  bits are kept, and that instruction yields \<open>0x8000000000000000\<close> for a NaN and for a
  value outside the signed 64-bit range; the conversion to \<open>size_t\<close> converts values
  from \<open>2^63\<close> on after subtracting \<open>2^63\<close>, and flips the top bit of the result.
\<close>

fun truncated :: "double \<Rightarrow> int option" where
  "truncated (Finite s m e) =
     Some ((if s then - 1 else 1) * (if 0 \<le> e then int m * 2 ^ nat e else int (m div 2 ^ nat (- e))))"
| "truncated (Infinity s) = None"
| "truncated NaN = None"

definition uint_of_double :: "double \<Rightarrow> nat" where
  "uint_of_double x =
     (case truncated x of
        Some t \<Rightarrow> if - (2 ^ 63) \<le> t \<and> t < 2 ^ 63 then nat (t mod 2 ^ 32) else 0
      | None \<Rightarrow> 0)"

definition size_t_of_double :: "double \<Rightarrow> nat" where
  "size_t_of_double x =
     (case truncated x of
        Some t \<Rightarrow>
          if 0 \<le> t \<and> t < 2 ^ 64 then nat t
          else if - (2 ^ 63) \<le> t \<and> t < 0 then nat (t mod 2 ^ 64)
          else if t < 0 then 2 ^ 63
          else 0
      | None \<Rightarrow> (if x = Infinity False then 0 else 2 ^ 63))"


section \<open>The director (zDirector.cpp)\<close>

text \<open>
  The rules read the heap, the cycle statistics, the allocation-rate statistics and the
  flags through static accessors. The model gathers what they read in one record, the
  environment of a tick. Sizes (\<open>size_t\<close>) and worker counts (\<open>uint\<close>) are natural
  numbers, with the unsigned wrap-around written out where an addition or a subtraction can
  leave the range (\<open>uadd64\<close>, \<open>usub32\<close>, \<open>usub64\<close>). Times, rates and the two
  \<open>double\<close> flags are values of the type \<open>double\<close> above, and every arithmetic
  operation, comparison and conversion of the source is the corresponding operation on
  that type, in the order in which the source writes them.

  \<open>default_nworkers\<close> is the worker count that the one-argument constructor
  \<open>ZDriverRequest(GCCause::Cause)\<close> fills in; the constructor is declared in zDriver.hpp,
  outside the files at hand, so the value is a parameter of the model.
\<close>

datatype GCCause = no_gc | z_allocation_stall | z_warmup | z_timer | z_allocation_rate
  | z_high_usage | z_proactive

record ZDriverRequest =
  cause :: GCCause
  nworkers :: nat

record director_env =
  driver_is_busy :: bool
  default_nworkers :: nat
  has_alloc_stalled :: bool
  is_warm :: bool
  is_time_trustable :: bool
  nwarmup_cycles :: nat
  soft_max_capacity :: nat
  used :: nat
  used_at_relocate_end :: nat
  relocation_headroom :: nat
  time_since_last :: double
  last_active_workers :: nat
  alloc_rate_avg :: double
  alloc_rate_sd :: double
  serial_time_davg :: double
  serial_time_dsd :: double
  parallelizable_time_davg :: double
  parallelizable_time_dsd :: double
  ZCollectionInterval :: double
  ZAllocationSpikeTolerance :: double
  ZProactive :: bool
  ConcGCThreads :: nat
  UseDynamicNumberOfGCThreads :: bool
  UseNewCode :: bool

definition request_of_cause :: "director_env \<Rightarrow> GCCause \<Rightarrow> ZDriverRequest" where
  "request_of_cause e c = \<lparr>cause = c, nworkers = default_nworkers e\<rparr>"

text \<open>\<open>constexpr double one_in_1000 = 3.290527\<close>\<close>

definition one_in_1000 :: double where
  "one_in_1000 = double_of_decimal 3290527 6"

text \<open>
  Modelled from the spec: \<open>ZStatAllocRate::sample_hz\<close> is declared in zStat.hpp, outside
  the files at hand; the spec gives the tick rate as 10 Hz.
  \<open>constexpr double sample_interval = 1.0 / ZStatAllocRate::sample_hz\<close>
\<close>

definition sample_hz :: nat where
  "sample_hz = 10"

definition sample_interval :: double where
  "sample_interval = fdiv (double_of_decimal 10 1) (double_of_nat sample_hz)"

text \<open>
  \<open>clamp\<close> is HotSpot's helper of globalDefinitions.hpp:
  \<open>clamp(value, min, max) = MIN2(MAX2(value, min), max)\<close>, here on \<open>uint\<close>.
\<close>

definition clamp :: "nat \<Rightarrow> nat \<Rightarrow> nat \<Rightarrow> nat" where
  "clamp v lo hi = min (max v lo) hi"

text \<open>
  Subtraction of \<open>uint\<close> values and subtraction and addition of \<open>size_t\<close> and
  \<open>uint64_t\<close> values wrap around.
\<close>

definition usub32 :: "nat \<Rightarrow> nat \<Rightarrow> nat" where
  "usub32 a b = (a + 2 ^ 32 - b) mod 2 ^ 32"

definition usub64 :: "nat \<Rightarrow> nat \<Rightarrow> nat" where
  "usub64 a b = (a + 2 ^ 64 - b) mod 2 ^ 64"

definition uadd64 :: "nat \<Rightarrow> nat \<Rightarrow> nat" where
  "uadd64 a b = (a + b) mod 2 ^ 64"

definition estimated_gc_workers :: "double \<Rightarrow> double \<Rightarrow> double \<Rightarrow> double" where
  "estimated_gc_workers serial_gc_time parallelizable_gc_time time_until_deadline =
     (let parallelizable_time_until_deadline =
            MAX2 (fsub time_until_deadline serial_gc_time) (double_of_decimal 1 3)
      in fdiv parallelizable_gc_time parallelizable_time_until_deadline)"

text \<open>
  \<open>clamp<uint>(ceil(gc_workers), 1, ConcGCThreads)\<close>: the \<open>double\<close> that \<open>ceil\<close>
  returns is converted to \<open>uint\<close> where it is passed to \<open>clamp\<close>.
\<close>

definition discrete_gc_workers :: "director_env \<Rightarrow> double \<Rightarrow> nat" where
  "discrete_gc_workers e gc_workers = clamp (uint_of_double (fceil gc_workers)) 1 (ConcGCThreads e)"

definition select_gc_workers :: "director_env \<Rightarrow> double \<Rightarrow> double \<Rightarrow> double \<Rightarrow> double" where
  "select_gc_workers e serial_gc_time parallelizable_gc_time time_until_oom =
     (let avoid_long_gc_workers =
            estimated_gc_workers serial_gc_time parallelizable_gc_time (double_of_nat 10);
          avoid_oom_gc_workers = estimated_gc_workers serial_gc_time parallelizable_gc_time time_until_oom;
          gc_workers = MAX2 avoid_long_gc_workers avoid_oom_gc_workers;
          actual_gc_workers = discrete_gc_workers e gc_workers;
          last_gc_workers = last_active_workers e
      in if actual_gc_workers < last_gc_workers then
           let gc_duration_delta =
                 fsub (fdiv parallelizable_gc_time (double_of_nat actual_gc_workers))
                      (fdiv parallelizable_gc_time (double_of_nat last_gc_workers));
               additional_time_for_allocations =
                 fsub (fsub (time_since_last e) gc_duration_delta) sample_interval;
               next_time_until_oom = fadd time_until_oom additional_time_for_allocations;
               next_avoid_oom_gc_workers =
                 estimated_gc_workers serial_gc_time parallelizable_gc_time next_time_until_oom;
               next_gc_workers = MAX2 avoid_long_gc_workers next_avoid_oom_gc_workers
           in MIN2 (fceil (fadd next_gc_workers (double_of_decimal 50 2))) (double_of_nat last_gc_workers)
         else gc_workers)"

definition rule_allocation_rate_dynamic :: "director_env \<Rightarrow> ZDriverRequest" where
  "rule_allocation_rate_dynamic e =
     (if \<not> is_time_trustable e then request_of_cause e no_gc
      else
        let soft_max_capacity = soft_max_capacity e;
            used = used e;
            free_including_headroom = soft_max_capacity - min soft_max_capacity used;
            free = free_including_headroom - min free_including_headroom (relocation_headroom e);
            alloc_rate_avg = alloc_rate_avg e;
            alloc_rate_sd = alloc_rate_sd e;
            alloc_rate_sd_percent = fdiv alloc_rate_sd (fadd alloc_rate_avg (double_of_decimal 10 1));
            alloc_rate_steady = fless alloc_rate_sd_percent (double_of_decimal 15 2);
            alloc_rate = fadd (fadd (fmul alloc_rate_avg (ZAllocationSpikeTolerance e))
                                    (fmul alloc_rate_sd one_in_1000))
                              (double_of_decimal 10 1);
            time_until_oom0 = fdiv (double_of_nat free) alloc_rate;
            time_until_oom =
              (if \<not> alloc_rate_steady
               then fdiv time_until_oom0 (fadd (double_of_decimal 10 1) alloc_rate_sd_percent)
               else time_until_oom0);
            serial_gc_time = fadd (serial_time_davg e) (fmul (serial_time_dsd e) one_in_1000);
            parallelizable_gc_time =
              fadd (parallelizable_time_davg e) (fmul (parallelizable_time_dsd e) one_in_1000);
            gc_workers0 = select_gc_workers e serial_gc_time parallelizable_gc_time time_until_oom;
            gc_workers = (if \<not> alloc_rate_steady
                          then MAX2 gc_workers0 (double_of_nat (last_active_workers e))
                          else gc_workers0);
            actual_gc_workers = discrete_gc_workers e gc_workers;
            actual_gc_duration =
              fadd serial_gc_time (fdiv parallelizable_gc_time (double_of_nat actual_gc_workers));
            last_gc_workers = last_active_workers e;
            more_safety_for_fewer_workers =
              fmul (double_of_nat (usub32 (ConcGCThreads e) actual_gc_workers)) sample_interval;
            time_until_gc =
              fsub (fsub (fsub time_until_oom actual_gc_duration) sample_interval)
                   more_safety_for_fewer_workers
        in if actual_gc_workers \<le> last_gc_workers \<and> fgt time_until_gc (double_of_nat 0)
           then \<lparr>cause = no_gc, nworkers = actual_gc_workers\<rparr>
           else \<lparr>cause = z_allocation_rate, nworkers = actual_gc_workers\<rparr>)"

text \<open>
  The original variant. Its \<open>watermark\<close>, \<open>margin\<close> and \<open>used_percent\<close> only
  feed the log and the branch under \<open>if (false && ...)\<close> never runs; they are left out.
  \<open>time_till_oom\<close> is reassigned in the volatile branch only, and \<open>n_ideal\<close> is the
  same quotient of the (possibly deflated) \<open>time_till_oom\<close> in both branches.
\<close>

definition rule_allocation_rate_dynamic_orig :: "director_env \<Rightarrow> ZDriverRequest" where
  "rule_allocation_rate_dynamic_orig e =
     (if \<not> is_time_trustable e then request_of_cause e no_gc
      else
        let sd_factor = double_of_decimal 3290527 6;
            alloc_rate = fadd (fadd (fmul (alloc_rate_avg e) (ZAllocationSpikeTolerance e))
                                    (fmul (alloc_rate_sd e) sd_factor))
                              (double_of_decimal 10 1);
            mutator_max = usub64 (soft_max_capacity e) (relocation_headroom e);
            alloc_rate_sd_percent =
              fdiv (alloc_rate_sd e) (fadd (alloc_rate_avg e) (double_of_decimal 10 1));
            used_bytes = used e;
            free_bytes = (if mutator_max > used_bytes then mutator_max - used_bytes else 0);
            time_till_oom0 =
              MAX2 (fsub (fdiv (double_of_nat free_bytes) alloc_rate) sample_interval)
                   (double_of_decimal 1 3);
            serial_gc_time = fadd (serial_time_davg e) (fmul (serial_time_dsd e) one_in_1000);
            parallelizable_gc_time =
              fadd (parallelizable_time_davg e) (fmul (parallelizable_time_dsd e) one_in_1000);
            cputime_total = fadd serial_gc_time parallelizable_gc_time;
            previous_n = last_active_workers e;
            target_max_walltime = double_of_nat 10;
            alloc_rate_sd_threshold = double_of_decimal 15 2;
            min_n = clamp (uint_of_double (fceil (fdiv cputime_total target_max_walltime))) 1
                          (ConcGCThreads e);
            time_till_oom =
              (if fge alloc_rate_sd_percent alloc_rate_sd_threshold
               then fdiv time_till_oom0 (fadd (double_of_decimal 10 1) alloc_rate_sd_percent)
               else time_till_oom0);
            n_ideal = fdiv cputime_total time_till_oom;
            n = (if fge alloc_rate_sd_percent alloc_rate_sd_threshold
                 then clamp (uint_of_double (fceil n_ideal)) (max min_n previous_n) (ConcGCThreads e)
                 else
                   let n1 = clamp (uint_of_double (fceil n_ideal)) min_n (ConcGCThreads e)
                   in if n1 < previous_n then
                        let gc_duration_delta =
                              fmul cputime_total
                                (fsub (fdiv (double_of_decimal 10 1) (double_of_nat n1))
                                      (fdiv (double_of_decimal 10 1) (double_of_nat previous_n)));
                            additional_time_for_allocations_to_happen =
                              fsub (fsub (time_since_last e) gc_duration_delta) sample_interval;
                            next_time_till_oom =
                              fadd time_till_oom additional_time_for_allocations_to_happen;
                            n_ideal_next_gc =
                              fdiv cputime_total (MAX2 next_time_till_oom (double_of_decimal 1 3))
                        in clamp (uint_of_double (fceil (fadd n_ideal_next_gc (double_of_decimal 50 2))))
                                 min_n previous_n
                      else n1);
            suggested_n = n;
            extra = fadd sample_interval
                      (fmul (double_of_nat (usub32 (ConcGCThreads e) n)) sample_interval);
            time_till_gc = fsub time_till_oom (fadd (fdiv cputime_total (double_of_nat n)) extra);
            ret = (n > previous_n \<or> fle time_till_gc (double_of_nat 0))
        in if ret then \<lparr>cause = z_allocation_rate, nworkers = suggested_n\<rparr>
           else \<lparr>cause = no_gc, nworkers = suggested_n\<rparr>)"

definition rule_allocation_stall :: "director_env \<Rightarrow> ZDriverRequest" where
  "rule_allocation_stall e =
     (let stall_since_last_gc = has_alloc_stalled e
      in if \<not> stall_since_last_gc then request_of_cause e no_gc
         else request_of_cause e z_allocation_stall)"

text \<open>
  \<open>ZStatCycle::nwarmup_cycles\<close> returns a \<open>uint64_t\<close>; the product with \<open>0.1\<close>
  and the product with the capacity are products of doubles, and the threshold is the
  second product converted to \<open>size_t\<close>.
\<close>

definition rule_warmup :: "director_env \<Rightarrow> ZDriverRequest" where
  "rule_warmup e =
     (if is_warm e then request_of_cause e no_gc
      else
        let soft_max_capacity = soft_max_capacity e;
            used = used e;
            used_threshold_percent =
              fmul (double_of_nat (uadd64 (nwarmup_cycles e) 1)) (double_of_decimal 1 1);
            used_threshold =
              size_t_of_double (fmul (double_of_nat soft_max_capacity) used_threshold_percent)
        in if used < used_threshold then request_of_cause e no_gc
           else request_of_cause e z_warmup)"

definition rule_timer :: "director_env \<Rightarrow> ZDriverRequest" where
  "rule_timer e =
     (if fle (ZCollectionInterval e) (double_of_nat 0) then request_of_cause e no_gc
      else
        let time_since_last_gc = time_since_last e;
            time_until_gc = fsub (ZCollectionInterval e) time_since_last_gc
        in if fgt time_until_gc (double_of_nat 0) then request_of_cause e no_gc
           else request_of_cause e z_timer)"

definition rule_allocation_rate_static :: "director_env \<Rightarrow> ZDriverRequest" where
  "rule_allocation_rate_static e =
     (if \<not> is_time_trustable e then request_of_cause e no_gc
      else
        let soft_max_capacity = soft_max_capacity e;
            used = used e;
            free_including_headroom = soft_max_capacity - min soft_max_capacity used;
            free = free_including_headroom - min free_including_headroom (relocation_headroom e);
            max_alloc_rate = fadd (fmul (alloc_rate_avg e) (ZAllocationSpikeTolerance e))
                                  (fmul (alloc_rate_sd e) one_in_1000);
            time_until_oom = fdiv (double_of_nat free) (fadd max_alloc_rate (double_of_decimal 10 1));
            serial_gc_time = fadd (serial_time_davg e) (fmul (serial_time_dsd e) one_in_1000);
            parallelizable_gc_time =
              fadd (parallelizable_time_davg e) (fmul (parallelizable_time_dsd e) one_in_1000);
            gc_duration =
              fadd serial_gc_time (fdiv parallelizable_gc_time (double_of_nat (ConcGCThreads e)));
            time_until_gc = fsub (fsub time_until_oom gc_duration) sample_interval
        in if fgt time_until_gc (double_of_nat 0) then request_of_cause e no_gc
           else request_of_cause e z_allocation_rate)"

definition rule_allocation_rate :: "director_env \<Rightarrow> ZDriverRequest" where
  "rule_allocation_rate e =
     (if UseDynamicNumberOfGCThreads e then
        let a = rule_allocation_rate_dynamic_orig e;
            b = rule_allocation_rate_dynamic e
        in if UseNewCode e then b else a
      else rule_allocation_rate_static e)"

text \<open>
  \<open>percent_of\<close> is HotSpot's helper of globalDefinitions.hpp: the numerator as a
  percentage of the denominator, and 0 when the denominator is 0.
\<close>

definition percent_of :: "nat \<Rightarrow> nat \<Rightarrow> double" where
  "percent_of numerator denominator =
     (if denominator \<noteq> 0
      then fmul (fdiv (double_of_nat numerator) (double_of_nat denominator)) (double_of_decimal 1000 1)
      else double_of_decimal 0 1)"

definition rule_high_usage :: "director_env \<Rightarrow> ZDriverRequest" where
  "rule_high_usage e =
     (let soft_max_capacity = soft_max_capacity e;
          used = used e;
          free_including_headroom = soft_max_capacity - min soft_max_capacity used;
          free = free_including_headroom - min free_including_headroom (relocation_headroom e);
          free_percent = percent_of free soft_max_capacity
      in if fgt free_percent (double_of_decimal 50 1) then request_of_cause e no_gc
         else request_of_cause e z_high_usage)"

definition rule_proactive :: "director_env \<Rightarrow> ZDriverRequest" where
  "rule_proactive e =
     (if \<not> ZProactive e \<or> \<not> is_warm e then request_of_cause e no_gc
      else
        let used_after_last_gc = used_at_relocate_end e;
            used_increase_threshold =
              size_t_of_double (fmul (double_of_nat (soft_max_capacity e)) (double_of_decimal 10 2));
            used_threshold = uadd64 used_after_last_gc used_increase_threshold;
            used = used e;
            time_since_last_gc = time_since_last e;
            time_since_last_gc_threshold = double_of_nat (5 * 60)
        in if used < used_threshold \<and> fless time_since_last_gc time_since_last_gc_threshold
           then request_of_cause e no_gc
           else
             let assumed_throughput_drop_during_gc = double_of_decimal 50 2;
                 acceptable_throughput_drop = double_of_decimal 1 2;
                 serial_gc_time = fadd (serial_time_davg e) (fmul (serial_time_dsd e) one_in_1000);
                 parallelizable_gc_time =
                   fadd (parallelizable_time_davg e) (fmul (parallelizable_time_dsd e) one_in_1000);
                 gc_duration =
                   fadd serial_gc_time (fdiv parallelizable_gc_time (double_of_nat (ConcGCThreads e)));
                 acceptable_gc_interval =
                   fmul gc_duration
                     (fsub (fdiv assumed_throughput_drop_during_gc acceptable_throughput_drop)
                           (double_of_decimal 10 1));
                 time_until_gc = fsub acceptable_gc_interval time_since_last_gc
             in if fgt time_until_gc (double_of_nat 0) then request_of_cause e no_gc
                else request_of_cause e z_proactive)"

text \<open>
  \<open>make_gc_decision\<close> walks the array of rules in order and returns the first request
  whose cause is not \<open>_no_gc\<close>; \<open>execute_rules\<close> is its loop.
\<close>

definition rules :: "(director_env \<Rightarrow> ZDriverRequest) list" where
  "rules = [rule_allocation_stall, rule_warmup, rule_timer, rule_allocation_rate,
            rule_high_usage, rule_proactive]"

fun execute_rules :: "(director_env \<Rightarrow> ZDriverRequest) list \<Rightarrow> director_env \<Rightarrow> ZDriverRequest" where
  "execute_rules [] e = request_of_cause e no_gc"
| "execute_rules (rule # rest) e =
     (let request = rule e
      in if cause request \<noteq> no_gc then request else execute_rules rest e)"

definition make_gc_decision :: "director_env \<Rightarrow> ZDriverRequest" where
  "make_gc_decision e = execute_rules rules e"

text \<open>
  One round of the main loop of \<open>ZDirector::run_service\<close>, after the metronome has
  ticked. The director's observable effects are the calls of
  \<open>ZStatAllocRate::sample_and_reset\<close> (counted in \<open>nsamples\<close>) and the requests passed
  to \<open>ZDriver::collect\<close> (recorded in order in \<open>collected\<close>). The environment is what
  the rules read in this round. \<open>run_service\<close> runs one round per tick until the
  metronome stops.
\<close>

record director =
  nsamples :: nat
  collected :: "ZDriverRequest list"

definition sample_allocation_rate :: "director \<Rightarrow> director" where
  "sample_allocation_rate d = d\<lparr>nsamples := nsamples d + 1\<rparr>"

definition tick :: "director_env \<Rightarrow> director \<Rightarrow> director" where
  "tick e d =
     (let d1 = sample_allocation_rate d
      in if \<not> driver_is_busy e then
           let request = make_gc_decision e
           in if cause request \<noteq> no_gc then d1\<lparr>collected := collected d1 @ [request]\<rparr> else d1
         else d1)"

fun run_service :: "director_env list \<Rightarrow> director \<Rightarrow> director" where
  "run_service [] d = d"
| "run_service (e # ticks) d = run_service ticks (tick e d)"


subsection \<open>The dynamic allocation-rate rule as the specification words it\<close>

text \<open>
  A second definition of the dynamic rule, following the formulas of the specification
  (section 4.2, dynamic mode), to be compared with \<open>rule_allocation_rate_dynamic\<close>.
  Byte counts and worker counts are integers here, with the mathematical \<open>max\<close>,
  \<open>min\<close> and difference; times and rates are doubles.
  \<open>spec_ceil x\<close> is \<open>ceil(x)\<close> as an integer, and \<open>ceil_is_uint x\<close> says that it is a
  value of \<open>uint\<close>, which is when C++ defines the conversion that the code applies to it.

  The worker count \<open>n\<close> is the one \<open>select_gc_workers\<close> chooses: \<open>want\<close>, or with the
  downshift friction \<open>min(ceil(next_want + 0.5), last_active_workers)\<close> when the candidate
  \<open>clamp(ceil(want), 1, ConcGCThreads)\<close> is below \<open>last_active_workers\<close>. The growth of the
  cycle that enters \<open>next_want\<close> is the difference of the two quotients
  \<open>parallelizable / n\<close> and \<open>parallelizable / last_n\<close>, evaluated in this order; the
  specification writes the same number as \<open>parallelizable * (1/n - 1/last_n)\<close>.
\<close>

definition spec_clamp :: "int \<Rightarrow> int \<Rightarrow> int \<Rightarrow> int" where
  "spec_clamp x lo hi = max lo (min x hi)"

definition spec_ceil :: "double \<Rightarrow> int" where
  "spec_ceil x = (case truncated (fceil x) of Some t \<Rightarrow> t | None \<Rightarrow> 0)"

definition ceil_is_uint :: "double \<Rightarrow> bool" where
  "ceil_is_uint x =
     (case truncated (fceil x) of Some t \<Rightarrow> 0 \<le> t \<and> t < 2 ^ 32 | None \<Rightarrow> False)"

definition spec_free :: "director_env \<Rightarrow> int" where
  "spec_free e =
     (let free_incl_headroom = max 0 (int (soft_max_capacity e) - int (used e))
      in max 0 (free_incl_headroom - int (relocation_headroom e)))"

definition spec_serial_gc_time :: "director_env \<Rightarrow> double" where
  "spec_serial_gc_time e =
     fadd (serial_time_davg e) (fmul (serial_time_dsd e) (double_of_decimal 3290527 6))"

definition spec_parallelizable_gc_time :: "director_env \<Rightarrow> double" where
  "spec_parallelizable_gc_time e =
     fadd (parallelizable_time_davg e) (fmul (parallelizable_time_dsd e) (double_of_decimal 3290527 6))"

definition spec_sd_percent :: "director_env \<Rightarrow> double" where
  "spec_sd_percent e = fdiv (alloc_rate_sd e) (fadd (alloc_rate_avg e) (double_of_decimal 10 1))"

definition spec_not_steady :: "director_env \<Rightarrow> bool" where
  "spec_not_steady e \<longleftrightarrow> fge (spec_sd_percent e) (double_of_decimal 15 2)"

definition spec_time_until_oom :: "director_env \<Rightarrow> double" where
  "spec_time_until_oom e =
     (let alloc_rate = fadd (fadd (fmul (alloc_rate_avg e) (ZAllocationSpikeTolerance e))
                                  (fmul (alloc_rate_sd e) (double_of_decimal 3290527 6)))
                            (double_of_decimal 10 1);
          time_until_oom = fdiv (double_of_nat (nat (spec_free e))) alloc_rate
      in if spec_not_steady e
         then fdiv time_until_oom (fadd (double_of_nat 1) (spec_sd_percent e))
         else time_until_oom)"

definition spec_workers_long :: "director_env \<Rightarrow> double \<Rightarrow> double" where
  "spec_workers_long e t =
     fdiv (spec_parallelizable_gc_time e) (MAX2 (fsub t (spec_serial_gc_time e)) (double_of_decimal 1 3))"

definition spec_want :: "director_env \<Rightarrow> double" where
  "spec_want e =
     MAX2 (spec_workers_long e (double_of_nat 10)) (spec_workers_long e (spec_time_until_oom e))"

definition spec_candidate :: "director_env \<Rightarrow> int" where
  "spec_candidate e = spec_clamp (spec_ceil (spec_want e)) 1 (int (ConcGCThreads e))"

definition spec_next_want :: "director_env \<Rightarrow> double" where
  "spec_next_want e =
     (let delta_dur =
            fsub (fdiv (spec_parallelizable_gc_time e) (double_of_nat (nat (spec_candidate e))))
                 (fdiv (spec_parallelizable_gc_time e) (double_of_nat (last_active_workers e)));
          extra_alloc = fsub (fsub (time_since_last e) delta_dur) sample_interval;
          next_oom = fadd (spec_time_until_oom e) extra_alloc
      in MAX2 (spec_workers_long e (double_of_nat 10)) (spec_workers_long e next_oom))"

definition spec_select_gc_workers :: "director_env \<Rightarrow> double" where
  "spec_select_gc_workers e =
     (if spec_candidate e < int (last_active_workers e)
      then MIN2 (fceil (fadd (spec_next_want e) (double_of_decimal 5 1)))
                (double_of_nat (last_active_workers e))
      else spec_want e)"

definition spec_n :: "director_env \<Rightarrow> double" where
  "spec_n e =
     (if spec_not_steady e
      then MAX2 (spec_select_gc_workers e) (double_of_nat (last_active_workers e))
      else spec_select_gc_workers e)"

definition spec_actual :: "director_env \<Rightarrow> int" where
  "spec_actual e = spec_clamp (spec_ceil (spec_n e)) 1 (int (ConcGCThreads e))"

definition spec_time_until_gc :: "director_env \<Rightarrow> double" where
  "spec_time_until_gc e =
     (let actual_duration =
            fadd (spec_serial_gc_time e)
                 (fdiv (spec_parallelizable_gc_time e) (double_of_nat (nat (spec_actual e))));
          safety_slack =
            fmul (double_of_nat (nat (int (ConcGCThreads e) - spec_actual e))) sample_interval
      in fsub (fsub (fsub (spec_time_until_oom e) actual_duration) sample_interval) safety_slack)"

definition spec_fire :: "director_env \<Rightarrow> bool" where
  "spec_fire e \<longleftrightarrow>
     spec_actual e > int (last_active_workers e) \<or> fle (spec_time_until_gc e) (double_of_nat 0)"

definition spec_rule_allocation_rate_dynamic :: "director_env \<Rightarrow> ZDriverRequest" where
  "spec_rule_allocation_rate_dynamic e =
     \<lparr>cause = (if spec_fire e then z_allocation_rate else no_gc), nworkers = nat (spec_actual e)\<rparr>"


subsection \<open>Environments to evaluate the rules on\<close>

text \<open>
  A warm heap with 2 bytes free, no allocation (rate 1 B/s after the guard), no serial
  time, 3.9 s of parallelizable time, eight configured workers, one worker in the last
  cycle, dynamic worker selection switched on and \<open>UseNewCode\<close> off.
\<close>

definition example_env :: director_env where
  "example_env = \<lparr>driver_is_busy = False, default_nworkers = 8, has_alloc_stalled = False,
      is_warm = True, is_time_trustable = True, nwarmup_cycles = 3, soft_max_capacity = 2, used = 0,
      used_at_relocate_end = 0, relocation_headroom = 0, time_since_last = double_of_nat 0,
      last_active_workers = 1, alloc_rate_avg = double_of_nat 0, alloc_rate_sd = double_of_nat 0,
      serial_time_davg = double_of_nat 0, serial_time_dsd = double_of_nat 0,
      parallelizable_time_davg = double_of_decimal 39 1,
      parallelizable_time_dsd = double_of_nat 0, ZCollectionInterval = double_of_nat 0,
      ZAllocationSpikeTolerance = double_of_nat 2,
      ZProactive = False, ConcGCThreads = 8, UseDynamicNumberOfGCThreads = True, UseNewCode = False\<rparr>"

text \<open>
  An environment on which rounding decides the worker count: 1 byte free at an average of
  1 B/s with spike tolerance 2 (a third of a second until the heap is full), 0.125 s of
  serial and 1.25 s of parallelizable time, no worker in the last cycle. The exact
  quotient \<open>1.25 / (1/3 - 1/8)\<close> is 6; the doubles give the next number above 6.
\<close>

definition rounding_env :: director_env where
  "rounding_env = \<lparr>driver_is_busy = False, default_nworkers = 8, has_alloc_stalled = False,
      is_warm = True, is_time_trustable = True, nwarmup_cycles = 3, soft_max_capacity = 1, used = 0,
      used_at_relocate_end = 0, relocation_headroom = 0, time_since_last = double_of_nat 0,
      last_active_workers = 0, alloc_rate_avg = double_of_nat 1, alloc_rate_sd = double_of_nat 0,
      serial_time_davg = double_of_decimal 125 3, serial_time_dsd = double_of_nat 0,
      parallelizable_time_davg = double_of_decimal 125 2,
      parallelizable_time_dsd = double_of_nat 0, ZCollectionInterval = double_of_nat 0,
      ZAllocationSpikeTolerance = double_of_nat 2,
      ZProactive = False, ConcGCThreads = 8, UseDynamicNumberOfGCThreads = True, UseNewCode = False\<rparr>"

text \<open>
  The second worked example of the specification: 2 GiB free, an allocation rate of
  500 MB/s with a standard deviation of 20 MB/s, spike tolerance 2, 0.05 s of serial and
  0.40 s of parallelizable time, eight configured workers, four workers in the last cycle,
  which ended one second ago.
\<close>

definition friction_env :: director_env where
  "friction_env = \<lparr>driver_is_busy = False, default_nworkers = 8, has_alloc_stalled = False,
      is_warm = True, is_time_trustable = True, nwarmup_cycles = 3, soft_max_capacity = 2147483648,
      used = 0, used_at_relocate_end = 0, relocation_headroom = 0, time_since_last = double_of_nat 1,
      last_active_workers = 4, alloc_rate_avg = double_of_nat 524288000,
      alloc_rate_sd = double_of_nat 20971520,
      serial_time_davg = double_of_decimal 5 2, serial_time_dsd = double_of_nat 0,
      parallelizable_time_davg = double_of_decimal 40 2,
      parallelizable_time_dsd = double_of_nat 0, ZCollectionInterval = double_of_nat 0,
      ZAllocationSpikeTolerance = double_of_nat 2,
      ZProactive = False, ConcGCThreads = 8, UseDynamicNumberOfGCThreads = True, UseNewCode = False\<rparr>"


section \<open>Worker and stripe affinity (zMarkAffinity.cpp)\<close>

text \<open>
  \<open>ZMarkStripeMap\<close> is declared in zMarkStack.hpp, outside the files at hand. Modelled
  from the spec: a stripe map is a 32-bit bitmap, bit \<open>i\<close> standing for stripe \<open>i\<close>;
  \<open>set(i)\<close> sets the bit and \<open>get(i)\<close> reads it.

  \<open>set_default_affinity\<close> takes the number of stripes of the stripe set, the number of
  workers and the worker id, and returns the index of the home stripe with the stripe map.
  Its integer arithmetic stays within the range of the operands (no subtraction goes below
  zero on the branch it is on), so the integers are natural numbers; the spillover chunk
  is a \<open>double\<close>, here a real number, truncated on conversion to \<open>size_t\<close>. An
  integer division by zero stripes, a conversion of an undefined quotient (no spillover
  workers, which needs \<open>worker_id \<ge> nworkers\<close>) and the failed assertion
  \<open>index < nstripes\<close> are error results.
\<close>

datatype affinity_error = Division_by_zero | Undefined_conversion | Invalid_index

definition stripe_map_set :: "nat \<Rightarrow> ZMarkStripeMap \<Rightarrow> ZMarkStripeMap" where
  "stripe_map_set index m = m OR push_bit index 1"

definition stripe_map_get :: "ZMarkStripeMap \<Rightarrow> nat \<Rightarrow> bool" where
  "stripe_map_get m index \<longleftrightarrow> bit m index"

definition set_default_affinity :: "nat \<Rightarrow> nat \<Rightarrow> nat \<Rightarrow> affinity_error + (nat \<times> ZMarkStripeMap)" where
  "set_default_affinity nstripes nworkers' worker_id =
     (if nstripes = 0 then Inl Division_by_zero
      else
        let spillover_limit = (nworkers' div nstripes) * nstripes;
            selected =
              (if worker_id < spillover_limit then Inr (worker_id AND (nstripes - 1))
               else
                 let spillover_nworkers = nworkers' - spillover_limit;
                     spillover_worker_id = worker_id - spillover_limit
                 in if spillover_nworkers = 0 then Inl Undefined_conversion
                    else
                      let spillover_chunk = real nstripes / real spillover_nworkers
                      in Inr (nat \<lfloor>real spillover_worker_id * spillover_chunk\<rfloor>))
        in case selected of
             Inl err \<Rightarrow> Inl err
           | Inr index \<Rightarrow>
               if \<not> index < nstripes then Inl Invalid_index
               else Inr (index, fold stripe_map_set [0..<nstripes] 0))"


section \<open>Marking (zMark.cpp)\<close>

subsection \<open>Splitting large object arrays\<close>

text \<open>
  Addresses (\<open>uintptr_t\<close>) and sizes (\<open>size_t\<close>) are natural numbers below
  \<open>2 ^ 64\<close>; additions and subtractions wrap around (\<open>uadd64\<close> and \<open>usub64\<close>
  above).
\<close>

text \<open>
  \<open>align_up\<close> and \<open>align_down\<close> are HotSpot's helpers of utilities/align.hpp, for an
  alignment that is a power of two: \<open>align_down(x, a) = x & ~(a - 1)\<close>, the largest
  multiple of \<open>a\<close> not above \<open>x\<close>, and \<open>align_up(x, a) = align_down(x + (a - 1), a)\<close>.
\<close>

definition align_down :: "nat \<Rightarrow> nat \<Rightarrow> nat" where
  "align_down x a = (x div a) * a"

definition align_up :: "nat \<Rightarrow> nat \<Rightarrow> nat" where
  "align_up x a = align_down (uadd64 x (a - 1)) a"

text \<open>
  Modelled from the spec: \<open>ZMarkPartialArrayMinSizeShift\<close> and
  \<open>ZMarkPartialArrayMinSize\<close> are constants of zGlobals.hpp, outside the files at hand;
  the spec gives the minimum partial array size as 4096 bytes, that is a shift of 12.
\<close>

definition ZMarkPartialArrayMinSizeShift :: nat where
  "ZMarkPartialArrayMinSizeShift = 12"

definition ZMarkPartialArrayMinSize :: nat where
  "ZMarkPartialArrayMinSize = push_bit ZMarkPartialArrayMinSizeShift 1"

text \<open>
  \<open>follow_large_array\<close> pushes partial arrays and then follows the leading part. What
  it does is recorded as the list of \<open>(addr, size)\<close> arguments of its calls of
  \<open>push_partial_array\<close>, in order, and the \<open>(addr, size)\<close> argument of its one call of
  \<open>follow_small_array\<close>. The assertions are not part of the computation; those that
  follow from \<open>size > ZMarkPartialArrayMinSize\<close> are proved below.

  \<open>push_middle\<close> is the loop that pushes the aligned middle parts. It need not
  terminate on every input (a part of size 0 would be pushed forever), so it is a partial
  function: \<open>None\<close> stands for a loop that does not return.
\<close>

partial_function (option) push_middle :: "nat \<Rightarrow> nat \<Rightarrow> (nat \<times> nat) list \<Rightarrow> (nat \<times> nat) list option" where
  "push_middle middle_start partial_addr pushed =
     (if partial_addr > middle_start then
        let parts = 2;
            partial_size = align_up ((usub64 partial_addr middle_start) div parts) ZMarkPartialArrayMinSize;
            partial_addr1 = usub64 partial_addr partial_size
        in push_middle middle_start partial_addr1 (pushed @ [(partial_addr1, partial_size)])
      else Some pushed)"

definition follow_large_array :: "nat \<Rightarrow> nat \<Rightarrow> ((nat \<times> nat) list \<times> (nat \<times> nat)) option" where
  "follow_large_array addr size' =
     (let start = addr;
          end' = uadd64 start size';
          middle_start = align_up (uadd64 start 1) ZMarkPartialArrayMinSize;
          middle_size = align_down (usub64 end' middle_start) ZMarkPartialArrayMinSize;
          middle_end = uadd64 middle_start middle_size;
          pushed = (if end' > middle_end then [(middle_end, usub64 end' middle_end)] else [])
      in case push_middle middle_start middle_end pushed of
           None \<Rightarrow> None
         | Some pushed1 \<Rightarrow> Some (pushed1, (start, usub64 middle_start start)))"

text \<open>The addresses of a range, and lists of pairwise disjoint ranges.\<close>

definition range_of :: "nat \<times> nat \<Rightarrow> nat set" where
  "range_of r = {fst r ..< fst r + snd r}"

fun disjoint_ranges :: "(nat \<times> nat) list \<Rightarrow> bool" where
  "disjoint_ranges [] = True"
| "disjoint_ranges (r # rs) = ((\<forall>q \<in> set rs. range_of r \<inter> range_of q = {}) \<and> disjoint_ranges rs)"

text \<open>
  A list of ranges tiles \<open>[lo, hi)\<close> from the top down when the first range ends at
  \<open>hi\<close>, each next range ends where the one before starts, the last one starts at
  \<open>lo\<close>, and no range is empty.
\<close>

fun tiles :: "(nat \<times> nat) list \<Rightarrow> nat \<Rightarrow> nat \<Rightarrow> bool" where
  "tiles [] lo hi = (lo = hi)"
| "tiles (r # rs) lo hi = (0 < snd r \<and> fst r + snd r = hi \<and> lo \<le> fst r \<and> tiles rs lo (fst r))"


subsection \<open>Marking and following an entry\<close>

text \<open>
  \<open>try_mark_object\<close> and \<open>mark_and_follow\<close> work on pages, mark stack entries, the
  mark cache and the objects of the heap, all declared outside the files at hand. Modelled
  from the spec: a mark stack entry is either an object entry (address, follow flag,
  finalizable flag) or a partial array entry (offset, length, finalizable flag). A page
  says whether it is allocating and what its object alignment is. The page table maps an
  address to its page. The heap state records, per page, the live objects and bytes added
  by \<open>ZMarkCache::inc_live\<close>, the list of mark attempts (calls of
  \<open>ZPage::mark_object\<close>) and the list of follow actions taken. What
  \<open>ZPage::mark_object\<close> answers (success and \<open>inc_live\<close>), the object sizes and
  which addresses hold object arrays are parameters.
\<close>

record ZPage =
  is_allocating :: bool
  object_alignment :: nat

datatype ZMarkStackEntry =
    Object_entry nat bool bool
  | Partial_array_entry nat nat bool

datatype follow_event =
    Follow_partial_array nat nat bool
  | Follow_array_object nat bool
  | Follow_object nat bool

record 'p mark_heap =
  page_table :: "nat \<Rightarrow> 'p"
  pages :: "'p \<Rightarrow> ZPage"
  live_bytes :: "'p \<Rightarrow> nat"
  live_objects :: "'p \<Rightarrow> nat"
  mark_calls :: "(nat \<times> bool) list"
  followed :: "follow_event list"

record 'p mark_collaborators =
  mark_object :: "'p mark_heap \<Rightarrow> nat \<Rightarrow> bool \<Rightarrow> bool \<times> bool"
  object_size :: "nat \<Rightarrow> nat"
  is_array :: "nat \<Rightarrow> bool"

definition inc_live :: "'p \<Rightarrow> nat \<Rightarrow> 'p mark_heap \<Rightarrow> 'p mark_heap" where
  "inc_live page bytes h =
     h\<lparr>live_objects := (live_objects h)(page := live_objects h page + 1),
       live_bytes := (live_bytes h)(page := live_bytes h page + bytes)\<rparr>"

definition try_mark_object :: "'p mark_collaborators \<Rightarrow> nat \<Rightarrow> bool \<Rightarrow> 'p mark_heap
                                 \<Rightarrow> bool \<times> 'p mark_heap" where
  "try_mark_object k addr finalizable h =
     (let page = page_table h addr
      in if is_allocating (pages h page) then (False, h)
         else
           let success = fst (mark_object k h addr finalizable);
               inc_live_flag = snd (mark_object k h addr finalizable);
               h1 = h\<lparr>mark_calls := mark_calls h @ [(addr, finalizable)]\<rparr>;
               h2 = (if inc_live_flag then
                       let size = object_size k addr;
                           aligned_size = align_up size (object_alignment (pages h page))
                       in inc_live page aligned_size h1
                     else h1)
           in (success, h2))"

definition mark_and_follow :: "'p mark_collaborators \<Rightarrow> ZMarkStackEntry \<Rightarrow> 'p mark_heap
                                 \<Rightarrow> 'p mark_heap" where
  "mark_and_follow k entry h =
     (case entry of
        Partial_array_entry offset len finalizable \<Rightarrow>
          h\<lparr>followed := followed h @ [Follow_partial_array offset len finalizable]\<rparr>
      | Object_entry addr follow finalizable \<Rightarrow>
          if \<not> fst (try_mark_object k addr finalizable h) then snd (try_mark_object k addr finalizable h)
          else
            let h1 = snd (try_mark_object k addr finalizable h)
            in if is_array k addr then
                 (if follow then h1\<lparr>followed := followed h1 @ [Follow_array_object addr finalizable]\<rparr>
                  else h1)
               else h1\<lparr>followed := followed h1 @ [Follow_object addr finalizable]\<rparr>)"

definition example_collaborators :: "nat mark_collaborators" where
  "example_collaborators = \<lparr>mark_object = (\<lambda>h addr finalizable. (True, True)),
      object_size = (\<lambda>addr. 24), is_array = (\<lambda>addr. False)\<rparr>"

definition example_heap :: "nat mark_heap" where
  "example_heap = \<lparr>page_table = (\<lambda>addr. addr div 2097152),
      pages = (\<lambda>p. \<lparr>is_allocating = (p = 1), object_alignment = 8\<rparr>),
      live_bytes = (\<lambda>p. 0), live_objects = (\<lambda>p. 0), mark_calls = [], followed = []\<rparr>"


subsection \<open>Restarting concurrent mark\<close>

text \<open>
  \<open>restart\<close> and the loop of \<open>mark\<close> depend on the restart and continue counters
  and on whether the termination state has active stripes after a flush. The counters are
  32-bit words. What the threads publish when they are flushed and the termination state
  the workers leave behind when a mark task has run are given by the environment:
  \<open>published i\<close> is the stripe map published by the \<open>i\<close>-th flush and
  \<open>after_task i\<close> the termination state after the \<open>i\<close>-th task. The state counts
  the tasks run and the flushes made. \<open>ZMarkRestartMax\<close> is a constant of zGlobals.hpp,
  outside the files at hand, and a parameter here.
\<close>

record mark_env =
  ZMarkRestartMax :: "32 word"
  after_task :: "nat \<Rightarrow> 64 word"
  published :: "nat \<Rightarrow> ZMarkStripeMap"

record mark_state =
  nrestart :: "32 word"
  ncomplete :: "32 word"
  ncontinue :: "32 word"
  mark_terminate :: "64 word"
  ntasks :: nat
  nflushes :: nat
  nroots :: nat

definition prepare_mark :: "mark_state \<Rightarrow> mark_state" where
  "prepare_mark s = s\<lparr>nrestart := 0, ncomplete := 0, ncontinue := 0\<rparr>"

definition run_mark_task :: "mark_env \<Rightarrow> mark_state \<Rightarrow> mark_state" where
  "run_mark_task env s = s\<lparr>mark_terminate := after_task env (ntasks s), ntasks := ntasks s + 1\<rparr>"

definition flush_threads :: "mark_env \<Rightarrow> mark_state \<Rightarrow> mark_state" where
  "flush_threads env s =
     s\<lparr>mark_terminate := set_active_stripes (published env (nflushes s)) (mark_terminate s),
       nflushes := nflushes s + 1\<rparr>"

definition restart :: "mark_env \<Rightarrow> mark_state \<Rightarrow> bool \<times> mark_state" where
  "restart env s =
     (let max = ZMarkRestartMax env * (ncontinue s + 1)
      in if nrestart s = max then (False, s)
         else
           let s1 = flush_threads env s
           in if has_active_stripes (mark_terminate s1) then (True, s1\<lparr>nrestart := nrestart s1 + 1\<rparr>)
              else (False, s1))"

function mark_loop :: "mark_env \<Rightarrow> mark_state \<Rightarrow> mark_state" where
  "mark_loop env s =
     (let s1 = run_mark_task env s
      in if fst (restart env s1) then mark_loop env (snd (restart env s1))
         else snd (restart env s1))"
  by pat_completeness auto
termination
proof (relation "measure (\<lambda>(env, s). unat (ZMarkRestartMax env * (ncontinue s + 1) - nrestart s))")
  show "wf (measure (\<lambda>(env, s). unat (ZMarkRestartMax env * (ncontinue s + 1) - nrestart s)))"
    by simp
next
  fix env :: mark_env and s s1 :: mark_state
  assume s1: "s1 = run_mark_task env s" and r: "fst (restart env s1)"
  define m where "m = ZMarkRestartMax env * (ncontinue s + 1)"
  have c: "ncontinue s1 = ncontinue s" "nrestart s1 = nrestart s"
    by (simp_all add: s1 run_mark_task_def)
  from r have ne: "nrestart s \<noteq> m"
    by (auto simp add: restart_def Let_def c m_def split: if_splits)
  from r have s2: "nrestart (snd (restart env s1)) = nrestart s + 1"
    "ncontinue (snd (restart env s1)) = ncontinue s"
    by (auto simp add: restart_def Let_def c flush_threads_def split: if_splits)
  have "m - nrestart s \<noteq> 0"
    using ne by simp
  then have d: "unat (m - nrestart s - 1) < unat (m - nrestart s)"
    by (simp add: unat_minus_one unat_gt_0)
  have e: "m - (nrestart s + 1) = m - nrestart s - 1"
    by simp
  have "unat (m - (nrestart s + 1)) < unat (m - nrestart s)"
    unfolding e by (rule d)
  then show "((env, snd (restart env s1)), env, s) \<in>
      measure (\<lambda>(env, s). unat (ZMarkRestartMax env * (ncontinue s + 1) - nrestart s))"
    by (simp add: s2 m_def)
qed

declare mark_loop.simps [simp del]

definition mark :: "mark_env \<Rightarrow> bool \<Rightarrow> mark_state \<Rightarrow> mark_state" where
  "mark env initial s = mark_loop env (if initial then s\<lparr>nroots := nroots s + 1\<rparr> else s)"

definition complete :: "mark_env \<Rightarrow> mark_state \<Rightarrow> bool \<times> mark_state" where
  "complete env s =
     (let s1 = flush_threads env s;
          s2 = (if has_active_stripes (mark_terminate s1)
                then (run_mark_task env s1)\<lparr>ncomplete := ncomplete s1 + 1\<rparr> else s1)
      in (\<not> has_active_stripes (mark_terminate s2), s2))"

definition mark_end :: "mark_env \<Rightarrow> mark_state \<Rightarrow> bool \<times> mark_state" where
  "mark_end env s =
     (if \<not> fst (complete env s)
      then (False, (snd (complete env s))\<lparr>ncontinue := ncontinue (snd (complete env s)) + 1\<rparr>)
      else (True, snd (complete env s)))"

definition example_mark_env :: mark_env where
  "example_mark_env = \<lparr>ZMarkRestartMax = 5,
      after_task = (\<lambda>k. ZMarkTerminateState terminate 0),
      published = (\<lambda>k. if k < 2 then 1 else 0)\<rparr>"

definition example_mark_state :: mark_state where
  "example_mark_state = \<lparr>nrestart = 0, ncomplete = 0, ncontinue = 0, mark_terminate = 0,
      ntasks = 0, nflushes = 0, nroots = 0\<rparr>"


section \<open>Properties of the termination state\<close>

lemma nactive_workers_ZMarkTerminateState [simp]:
  "nactive_workers (ZMarkTerminateState n a) = n"
  unfolding nactive_workers_def ZMarkTerminateState_def
  by (rule bit_word_eqI) (auto simp add: bit_simps dest: bit_imp_le_length)

lemma active_stripes_ZMarkTerminateState [simp]:
  "active_stripes (ZMarkTerminateState n a) = a"
  unfolding active_stripes_def ZMarkTerminateState_def
  by (rule bit_word_eqI) (auto simp add: bit_simps)

lemma ZMarkTerminateState_fields:
  "ZMarkTerminateState (nactive_workers s) (active_stripes s) = s"
  unfolding active_stripes_def ZMarkTerminateState_def nactive_workers_def
  by (rule bit_word_eqI) (auto simp add: bit_simps)

lemma ZMarkTerminateState_zero [simp]: "ZMarkTerminateState 0 0 = 0"
  by (simp add: ZMarkTerminateState_def)

lemma fields_of_zero [simp]: "nactive_workers 0 = 0" "active_stripes 0 = 0"
  by (simp_all add: nactive_workers_def active_stripes_def)

lemma is_cleared_iff: "is_cleared s \<longleftrightarrow> nactive_workers s = 0 \<and> active_stripes s = 0"
proof
  assume "is_cleared s"
  then show "nactive_workers s = 0 \<and> active_stripes s = 0"
    by (simp add: is_cleared_def)
next
  assume "nactive_workers s = 0 \<and> active_stripes s = 0"
  then have "ZMarkTerminateState 0 0 = s"
    using ZMarkTerminateState_fields [of s] by simp
  then show "is_cleared s"
    by (simp add: is_cleared_def)
qed

lemma terminate_not_zero [simp]: "terminate \<noteq> 0" "0 \<noteq> terminate"
  by (simp_all add: terminate_def)

lemma exit_idle_mode_assertion:
  "active_stripes s AND stripe_map \<noteq> 0 \<Longrightarrow> \<not> is_cleared s"
  by (auto simp add: is_cleared_iff)

lemma set_active_stripes_nactive [simp]:
  "nactive_workers (set_active_stripes m s) = nactive_workers s"
  by (simp add: set_active_stripes_def Let_def)

lemma set_active_stripes_active [simp]:
  "active_stripes (set_active_stripes m s) = active_stripes s OR m"
  by (simp add: set_active_stripes_def Let_def)

lemma exit_idle_mode_terminate:
  "nactive_workers s = terminate \<Longrightarrow> exit_idle_mode m s = (False, s)"
  by (simp add: exit_idle_mode_def Let_def)

lemma enter_terminate_mode_terminate:
  "nactive_workers s = terminate \<Longrightarrow> enter_terminate_mode s = (True, s)"
  by (simp add: enter_terminate_mode_def Let_def)

text \<open>
  C4, as amended. \<open>enter_terminate_mode\<close> returns true exactly when the worker count
  already is the sentinel \<open>TERMINATE\<close> or when both fields are zero. Whenever it returns
  true the worker count is \<open>TERMINATE\<close> afterwards; the state becomes \<open>(TERMINATE, 0)\<close>
  when it was cleared, and stays as it was (stripe flags included) when it already was
  terminating. When it returns false the state is unchanged.
\<close>

theorem enter_terminate_mode_result:
  "(fst (enter_terminate_mode s) \<longleftrightarrow>
      nactive_workers s = terminate \<or> (nactive_workers s = 0 \<and> active_stripes s = 0))
   \<and> (fst (enter_terminate_mode s) \<longrightarrow>
        nactive_workers (snd (enter_terminate_mode s)) = terminate
        \<and> active_stripes (snd (enter_terminate_mode s)) = active_stripes s)
   \<and> (fst (enter_terminate_mode s) \<and> nactive_workers s \<noteq> terminate \<longrightarrow>
        snd (enter_terminate_mode s) = ZMarkTerminateState terminate 0)
   \<and> (fst (enter_terminate_mode s) \<and> nactive_workers s = terminate \<longrightarrow>
        snd (enter_terminate_mode s) = s)
   \<and> (\<not> fst (enter_terminate_mode s) \<longrightarrow> snd (enter_terminate_mode s) = s)"
proof (cases "nactive_workers s = terminate")
  case True
  then have "enter_terminate_mode s = (True, s)"
    by (rule enter_terminate_mode_terminate)
  with True show ?thesis by simp
next
  case running: False
  show ?thesis
  proof (cases "nactive_workers s = 0 \<and> active_stripes s = 0")
    case True
    with running have "enter_terminate_mode s = (True, ZMarkTerminateState terminate 0)"
      by (simp add: enter_terminate_mode_def Let_def)
    with True running show ?thesis by simp
  next
    case False
    with running have "enter_terminate_mode s = (False, s)"
      by (auto simp add: enter_terminate_mode_def Let_def)
    with False running show ?thesis by auto
  qed
qed

theorem enter_terminate_mode_result_witness:
  "fst (enter_terminate_mode (reset 0))
   \<and> nactive_workers (snd (enter_terminate_mode (reset 0))) = terminate
   \<and> snd (enter_terminate_mode (reset 0)) = ZMarkTerminateState terminate 0"
proof -
  have f: "nactive_workers (reset 0) = 0" "active_stripes (reset 0) = 0"
    by (simp_all add: reset_def)
  show ?thesis
    using enter_terminate_mode_result [of "reset 0"] f by simp
qed

text \<open>
  C4, as stated, fails on a state that is already terminating and has a stripe flag set
  (a flush published work after the workers terminated): the call returns true although
  the worker count is not zero and the stripe flags are not zero, and the state it leaves
  is not \<open>(TERMINATE, 0)\<close>.
\<close>

theorem enter_terminate_mode_counterexample:
  "fst (enter_terminate_mode (ZMarkTerminateState terminate 5))
   \<and> nactive_workers (ZMarkTerminateState terminate 5) \<noteq> 0
   \<and> active_stripes (ZMarkTerminateState terminate 5) \<noteq> 0
   \<and> snd (enter_terminate_mode (ZMarkTerminateState terminate 5)) \<noteq> ZMarkTerminateState terminate 0"
proof -
  have "ZMarkTerminateState terminate 5 \<noteq> ZMarkTerminateState terminate 0"
  proof
    assume "ZMarkTerminateState terminate 5 = ZMarkTerminateState terminate 0"
    then have "active_stripes (ZMarkTerminateState terminate 5)
             = active_stripes (ZMarkTerminateState terminate 0)"
      by simp
    then show False by simp
  qed
  then show ?thesis
    by (simp add: enter_terminate_mode_def Let_def)
qed

text \<open>
  C5. On a state that is not cleared, \<open>enter_idle_mode\<close> computes
  \<open>new_stripes = active_stripes AND NOT map\<close>. If that equals \<open>active_stripes\<close> it
  returns true, the worker count is one less (in 32-bit unsigned arithmetic) and the stripe
  flags are unchanged; otherwise it returns false, the stripe flags are \<open>new_stripes\<close>
  and the worker count is unchanged.
\<close>

theorem enter_idle_mode_result:
  assumes "\<not> is_cleared s"
  shows "\<exists>should_idle s'.
           enter_idle_mode stripe_map s = Inr (should_idle, s')
           \<and> (should_idle \<longleftrightarrow> active_stripes s AND NOT stripe_map = active_stripes s)
           \<and> (should_idle \<longrightarrow>
                nactive_workers s' = nactive_workers s - 1 \<and> active_stripes s' = active_stripes s)
           \<and> (\<not> should_idle \<longrightarrow>
                nactive_workers s' = nactive_workers s
                \<and> active_stripes s' = active_stripes s AND NOT stripe_map)"
  using assms by (auto simp add: enter_idle_mode_def Let_def)

theorem enter_idle_mode_result_witness:
  "\<not> is_cleared (ZMarkTerminateState 2 6)
   \<and> enter_idle_mode 1 (ZMarkTerminateState 2 6) = Inr (True, ZMarkTerminateState 1 6)
   \<and> enter_idle_mode 3 (ZMarkTerminateState 2 6) = Inr (False, ZMarkTerminateState 2 4)"
proof -
  have nc: "\<not> is_cleared (ZMarkTerminateState 2 6)"
    by (simp add: is_cleared_iff)
  have a: "(6 :: 32 word) AND NOT 1 = 6" "(6 :: 32 word) AND NOT 3 = 4"
    by simp_all
  from enter_idle_mode_result [OF nc, of 1] a(1)
  obtain s1 where s1: "enter_idle_mode 1 (ZMarkTerminateState 2 6) = Inr (True, s1)"
    "nactive_workers s1 = 1" "active_stripes s1 = 6"
    by auto
  from enter_idle_mode_result [OF nc, of 3] a(2)
  obtain s2 where s2: "enter_idle_mode 3 (ZMarkTerminateState 2 6) = Inr (False, s2)"
    "nactive_workers s2 = 2" "active_stripes s2 = 4"
    by auto
  have "s1 = ZMarkTerminateState 1 6"
    using ZMarkTerminateState_fields [of s1] s1 by simp
  moreover have "s2 = ZMarkTerminateState 2 4"
    using ZMarkTerminateState_fields [of s2] s2 by simp
  ultimately show ?thesis
    using nc s1 s2 by simp
qed

lemma count_update:
  "i < length xs \<Longrightarrow>
   length (filter P (xs[i := y])) + (if P (xs ! i) then 1 else 0)
     = length (filter P xs) + (if P y then 1 else 0)"
proof (induction xs arbitrary: i)
  case Nil
  then show ?case by simp
next
  case (Cons x xs)
  show ?case
  proof (cases i)
    case 0
    then show ?thesis by simp
  next
    case (Suc j)
    with Cons.prems have "j < length xs" by simp
    from Cons.IH [OF this] Suc show ?thesis by simp
  qed
qed

lemma terminate_unat: "unat terminate = 2 ^ 32 - 1"
  by (simp add: terminate_def unsigned_minus_1_eq_mask mask_eq_exp_minus_1)

lemma inv_start:
  assumes "nworkers' \<noteq> terminate"
  shows "task_inv (start_task nworkers')"
proof -
  have "unat nworkers' \<noteq> unat terminate"
    using assms by (simp add: word_unat_eq_iff)
  moreover have "unat nworkers' < 2 ^ 32"
    using unsigned_less [of nworkers'] by simp
  ultimately have "unat nworkers' < 2 ^ 32 - 1"
    unfolding terminate_unat by linarith
  then show ?thesis
    using assms
    by (simp add: task_inv_def start_task_def terminating_def reset_def active_pc_def)
qed

lemma idle_progress_refl [simp]: "idle_progress pc pc"
  by (simp add: idle_progress_def)

lemma idle_progress_trans:
  "idle_progress a b \<Longrightarrow> idle_progress b c \<Longrightarrow> idle_progress a c"
  unfolding idle_progress_def by auto

lemma enter_idle_mode_nactive:
  assumes "\<not> is_cleared s"
  shows "\<exists>b s'. enter_idle_mode m s = Inr (b, s')
           \<and> nactive_workers s' = (if b then nactive_workers s - 1 else nactive_workers s)"
  using assms by (simp add: enter_idle_mode_def Let_def)

lemma exit_idle_mode_nactive:
  "exit_idle_mode m s = (False, s)
   \<or> (nactive_workers s \<noteq> terminate \<and> fst (exit_idle_mode m s)
      \<and> nactive_workers (snd (exit_idle_mode m s)) = nactive_workers s + 1)"
  by (simp add: exit_idle_mode_def Let_def)

lemma enter_terminate_mode_nactive:
  "(nactive_workers s = terminate \<and> enter_terminate_mode s = (True, s))
   \<or> (nactive_workers s = 0 \<and> fst (enter_terminate_mode s)
      \<and> nactive_workers (snd (enter_terminate_mode s)) = terminate)
   \<or> (nactive_workers s \<noteq> terminate \<and> enter_terminate_mode s = (False, s))"
  by (simp add: enter_terminate_mode_def Let_def)

lemma inactive_update:
  assumes "\<forall>pc \<in> set ws. \<not> active_pc pc" and "\<not> active_pc pc'"
  shows "\<forall>pc \<in> set (ws[i := pc']). \<not> active_pc pc"
  using assms set_update_subset_insert [of ws i pc'] by auto

lemma count_zero_inactive:
  "length (filter P xs) = 0 \<Longrightarrow> \<forall>x \<in> set xs. \<not> P x"
  by (simp add: filter_empty_conv)

lemma idle_step_inv:
  assumes inv: "task_inv t" and i: "i < length (tworkers t)"
  shows "\<exists>pc s. idle_step m (tworkers t ! i) (tstate t) = Inr (pc, s)
           \<and> task_inv \<lparr>tstate = s, tworkers = (tworkers t)[i := pc]\<rparr>
           \<and> (terminating t \<longrightarrow> nactive_workers s = terminate \<and> idle_progress (tworkers t ! i) pc)"
proof -
  let ?ws = "tworkers t"
  let ?s = "tstate t"
  let ?n = "length (filter active_pc ?ws)"
  have len: "length ?ws < 2 ^ 32 - 1"
    using inv by (simp add: task_inv_def)
  have tm: "terminating t \<Longrightarrow> \<forall>pc \<in> set ?ws. \<not> active_pc pc"
    using inv by (simp add: task_inv_def)
  have cnt: "\<not> terminating t \<Longrightarrow> unat (nactive_workers ?s) = ?n"
    using inv by (simp add: task_inv_def)
  have mem: "?ws ! i \<in> set ?ws"
    using i by simp
  have le: "?n \<le> length ?ws"
    by (rule length_filter_le)
  have same: "task_inv \<lparr>tstate = ?s, tworkers = ?ws[i := ?ws ! i]\<rparr>"
    using inv by (simp add: task_inv_def terminating_def)
  show ?thesis
  proof (cases "?ws ! i")
    case Working
    then have act: "active_pc (?ws ! i)"
      by (simp add: active_pc_def)
    with mem tm have nt: "\<not> terminating t"
      by blast
    from act mem have "?ws ! i \<in> set (filter active_pc ?ws)"
      by simp
    then have pos: "0 < ?n"
      by (rule length_pos_if_in_set)
    with cnt [OF nt] have nz: "nactive_workers ?s \<noteq> 0"
      by auto
    then have "\<not> is_cleared ?s"
      by (simp add: is_cleared_iff)
    from enter_idle_mode_nactive [OF this, of m]
    obtain b s' where e: "enter_idle_mode m ?s = Inr (b, s')"
      and n': "nactive_workers s' = (if b then nactive_workers ?s - 1 else nactive_workers ?s)"
      by blast
    show ?thesis
    proof (cases b)
      case True
      have st: "idle_step m (?ws ! i) ?s = Inr (Idle_terminate, s')"
        using Working e True by (simp add: idle_step_def)
      have "length (filter active_pc (?ws[i := Idle_terminate])) + 1 = ?n"
        using count_update [OF i, of active_pc Idle_terminate] act by (simp add: active_pc_def)
      then have c': "length (filter active_pc (?ws[i := Idle_terminate])) = ?n - 1"
        by linarith
      have u: "unat (nactive_workers s') = ?n - 1"
        using n' True unat_minus_one [OF nz] cnt [OF nt] by simp
      have "unat (nactive_workers s') \<noteq> unat terminate"
        unfolding u terminate_unat using le len by linarith
      then have "nactive_workers s' \<noteq> terminate"
        by auto
      then have "task_inv \<lparr>tstate = s', tworkers = ?ws[i := Idle_terminate]\<rparr>"
        using len u c' by (simp add: task_inv_def terminating_def)
      with st nt show ?thesis
        by simp
    next
      case False
      have st: "idle_step m (?ws ! i) ?s = Inr (Working, s')"
        using Working e False by (simp add: idle_step_def)
      have "nactive_workers s' = nactive_workers ?s"
        using n' False by simp
      then have "task_inv \<lparr>tstate = s', tworkers = ?ws[i := ?ws ! i]\<rparr>"
        using inv by (simp add: task_inv_def terminating_def)
      with st nt Working show ?thesis
        by simp
    qed
  next
    case Idle_terminate
    then have na: "\<not> active_pc (?ws ! i)"
      by (simp add: active_pc_def)
    have c': "length (filter active_pc (?ws[i := pc])) = ?n" if "\<not> active_pc pc" for pc
      using count_update [OF i, of active_pc pc] na that by simp
    have st: "idle_step m (?ws ! i) ?s =
        Inr (if fst (enter_terminate_mode ?s) then Terminated else Idle_exit,
             snd (enter_terminate_mode ?s))"
      using Idle_terminate by (simp add: idle_step_def)
    consider (already) "nactive_workers ?s = terminate" "enter_terminate_mode ?s = (True, ?s)"
      | (enter) "nactive_workers ?s = 0" "fst (enter_terminate_mode ?s)"
          "nactive_workers (snd (enter_terminate_mode ?s)) = terminate"
      | (stay) "nactive_workers ?s \<noteq> terminate" "enter_terminate_mode ?s = (False, ?s)"
      using enter_terminate_mode_nactive [of ?s] by blast
    then show ?thesis
    proof cases
      case already
      then have t: "terminating t"
        by (simp add: terminating_def)
      have "\<forall>pc \<in> set (?ws[i := Terminated]). \<not> active_pc pc"
        using tm [OF t] by (rule inactive_update) (simp add: active_pc_def)
      then have "task_inv \<lparr>tstate = ?s, tworkers = ?ws[i := Terminated]\<rparr>"
        using len t by (simp add: task_inv_def terminating_def)
      with st already Idle_terminate show ?thesis
        by (simp add: idle_progress_def)
    next
      case enter
      then have nt: "\<not> terminating t"
        by (simp add: terminating_def)
      from cnt [OF nt] enter(1) have "?n = 0"
        by simp
      then have "\<forall>pc \<in> set ?ws. \<not> active_pc pc"
        by (rule count_zero_inactive)
      then have "\<forall>pc \<in> set (?ws[i := Terminated]). \<not> active_pc pc"
        by (rule inactive_update) (simp add: active_pc_def)
      then have "task_inv \<lparr>tstate = snd (enter_terminate_mode ?s), tworkers = ?ws[i := Terminated]\<rparr>"
        using len enter(3) by (simp add: task_inv_def terminating_def)
      with st enter nt show ?thesis
        by simp
    next
      case stay
      then have nt: "\<not> terminating t"
        by (simp add: terminating_def)
      have "task_inv \<lparr>tstate = ?s, tworkers = ?ws[i := Idle_exit]\<rparr>"
        using len nt cnt [OF nt] c' [of Idle_exit]
        by (simp add: task_inv_def terminating_def active_pc_def)
      with st stay nt show ?thesis
        by simp
    qed
  next
    case Idle_exit
    then have na: "\<not> active_pc (?ws ! i)"
      by (simp add: active_pc_def)
    have st: "idle_step m (?ws ! i) ?s =
        Inr (if fst (exit_idle_mode m ?s) then Working else Idle_terminate,
             snd (exit_idle_mode m ?s))"
      using Idle_exit by (simp add: idle_step_def)
    consider (wait) "exit_idle_mode m ?s = (False, ?s)"
      | (resume) "nactive_workers ?s \<noteq> terminate" "fst (exit_idle_mode m ?s)"
          "nactive_workers (snd (exit_idle_mode m ?s)) = nactive_workers ?s + 1"
      using exit_idle_mode_nactive [of m ?s] by blast
    then show ?thesis
    proof cases
      case wait
      have c': "length (filter active_pc (?ws[i := Idle_terminate])) = ?n"
        using count_update [OF i, of active_pc Idle_terminate] na by (simp add: active_pc_def)
      have "task_inv \<lparr>tstate = ?s, tworkers = ?ws[i := Idle_terminate]\<rparr>"
      proof (cases "terminating t")
        case True
        have "\<forall>pc \<in> set (?ws[i := Idle_terminate]). \<not> active_pc pc"
          using tm [OF True] by (rule inactive_update) (simp add: active_pc_def)
        then show ?thesis
          using len True by (simp add: task_inv_def terminating_def)
      next
        case False
        then show ?thesis
          using len cnt [OF False] c' by (simp add: task_inv_def terminating_def)
      qed
      with st wait Idle_exit show ?thesis
        by (simp add: idle_progress_def terminating_def)
    next
      case resume
      then have nt: "\<not> terminating t"
        by (simp add: terminating_def)
      have "length (filter active_pc (?ws[i := Working])) = ?n + 1"
        using count_update [OF i, of active_pc Working] na by (simp add: active_pc_def)
      then have c': "length (filter active_pc (?ws[i := Working])) = ?n + 1"
        by simp
      from mem na have lt: "?n < length ?ws"
        by (rule length_filter_less)
      have "nactive_workers ?s + 1 \<noteq> 0"
      proof
        assume "nactive_workers ?s + 1 = 0"
        then have "nactive_workers ?s = - 1"
          by (simp only: eq_neg_iff_add_eq_0)
        with resume(1) show False
          by (simp add: terminate_def)
      qed
      then have "1 + nactive_workers ?s \<noteq> 0"
        by (simp add: add.commute)
      then have "unat (1 + nactive_workers ?s) = Suc (unat (nactive_workers ?s))"
        by (rule unatSuc)
      then have "unat (nactive_workers ?s + 1) = Suc (unat (nactive_workers ?s))"
        by (simp add: add.commute)
      then have u: "unat (nactive_workers (snd (exit_idle_mode m ?s))) = ?n + 1"
        using resume(3) cnt [OF nt] by simp
      have "unat (nactive_workers (snd (exit_idle_mode m ?s))) \<noteq> unat terminate"
        unfolding u terminate_unat using lt len by linarith
      then have "nactive_workers (snd (exit_idle_mode m ?s)) \<noteq> terminate"
        by auto
      then have "task_inv \<lparr>tstate = snd (exit_idle_mode m ?s), tworkers = ?ws[i := Working]\<rparr>"
        using len u c' by (simp add: task_inv_def terminating_def)
      with st resume nt show ?thesis
        by simp
    qed
  next
    case Terminated
    then have "idle_step m (?ws ! i) ?s = Inr (?ws ! i, ?s)"
      by (simp add: idle_step_def)
    with same show ?thesis
      by (simp add: terminating_def)
  next
    case Timed_out
    then have "idle_step m (?ws ! i) ?s = Inr (?ws ! i, ?s)"
      by (simp add: idle_step_def)
    with same show ?thesis
      by (simp add: terminating_def)
  qed
qed

lemma perform_inv:
  assumes inv: "task_inv t"
  shows "\<exists>t'. perform maps a t = Inr t' \<and> task_inv t'
           \<and> length (tworkers t') = length (tworkers t)
           \<and> (terminating t \<longrightarrow>
                terminating t'
                \<and> (\<forall>i < length (tworkers t). idle_progress (tworkers t ! i) (tworkers t' ! i)))"
proof (cases a)
  case (Publish m)
  have "task_inv (t\<lparr>tstate := set_active_stripes m (tstate t)\<rparr>)"
    using inv by (simp add: task_inv_def terminating_def)
  with Publish show ?thesis
    by (simp add: terminating_def)
next
  case (Idle i)
  show ?thesis
  proof (cases "i < length (tworkers t)")
    case True
    from idle_step_inv [OF inv True, of "maps i"]
    obtain pc s where st: "idle_step (maps i) (tworkers t ! i) (tstate t) = Inr (pc, s)"
      and inv': "task_inv \<lparr>tstate = s, tworkers = (tworkers t)[i := pc]\<rparr>"
      and tm: "terminating t \<longrightarrow> nactive_workers s = terminate \<and> idle_progress (tworkers t ! i) pc"
      by blast
    have p: "perform maps a t = Inr \<lparr>tstate = s, tworkers = (tworkers t)[i := pc]\<rparr>"
      using Idle True st by simp
    have "idle_progress (tworkers t ! j) ((tworkers t)[i := pc] ! j)"
      if "terminating t" "j < length (tworkers t)" for j
      using that tm by (cases "i = j") simp_all
    with p inv' tm show ?thesis
      by (simp add: terminating_def)
  next
    case False
    with Idle inv show ?thesis
      by simp
  qed
next
  case (Timeout i)
  show ?thesis
  proof (cases "i < length (tworkers t) \<and> tworkers t ! i = Working")
    case True
    then have i: "i < length (tworkers t)" and w: "tworkers t ! i = Working"
      by simp_all
    from i have "tworkers t ! i \<in> set (tworkers t)"
      by simp
    with w inv have nt: "\<not> terminating t"
      by (auto simp add: task_inv_def active_pc_def)
    have "length (filter active_pc ((tworkers t)[i := Timed_out]))
        = length (filter active_pc (tworkers t))"
      using count_update [OF i, of active_pc Timed_out] w by (simp add: active_pc_def)
    then have "task_inv (t\<lparr>tworkers := (tworkers t)[i := Timed_out]\<rparr>)"
      using inv nt by (simp add: task_inv_def terminating_def)
    with Timeout True nt show ?thesis
      by simp
  next
    case False
    with Timeout inv show ?thesis
      by auto
  qed
qed

lemma run_inv:
  assumes "task_inv t"
  shows "\<exists>t'. run maps acts t = Inr t' \<and> task_inv t'
           \<and> length (tworkers t') = length (tworkers t)
           \<and> (terminating t \<longrightarrow>
                terminating t'
                \<and> (\<forall>i < length (tworkers t). idle_progress (tworkers t ! i) (tworkers t' ! i)))"
  using assms
proof (induction acts arbitrary: t)
  case Nil
  then show ?case by simp
next
  case (Cons a acts)
  from perform_inv [OF Cons.prems, of maps a]
  obtain t1 where p: "perform maps a t = Inr t1" and inv1: "task_inv t1"
    and len1: "length (tworkers t1) = length (tworkers t)"
    and tm1: "terminating t \<longrightarrow> terminating t1
        \<and> (\<forall>i < length (tworkers t). idle_progress (tworkers t ! i) (tworkers t1 ! i))"
    by blast
  from Cons.IH [OF inv1]
  obtain t' where r: "run maps acts t1 = Inr t'" and inv': "task_inv t'"
    and len': "length (tworkers t') = length (tworkers t1)"
    and tm': "terminating t1 \<longrightarrow> terminating t'
        \<and> (\<forall>i < length (tworkers t1). idle_progress (tworkers t1 ! i) (tworkers t' ! i))"
    by blast
  have "idle_progress (tworkers t ! i) (tworkers t' ! i)"
    if "terminating t" "i < length (tworkers t)" for i
    using that tm1 tm' len1 idle_progress_trans by auto
  with p r inv' len1 len' tm1 tm' show ?case
    by simp
qed

lemma idle_returns_true:
  assumes "nactive_workers (tstate t) = terminate" and "i < length (tworkers t)"
    and "tworkers t ! i = Idle_terminate \<or> tworkers t ! i = Idle_exit \<or> tworkers t ! i = Terminated"
  shows "\<exists>t'. run maps [Idle i, Idle i] t = Inr t' \<and> tworkers t' ! i = Terminated
           \<and> tstate t' = tstate t"
  using assms
  by (auto simp add: idle_step_def exit_idle_mode_terminate enter_terminate_mode_terminate)

text \<open>
  C6. While the worker count holds the sentinel \<open>TERMINATE\<close>, \<open>exit_idle_mode\<close>
  returns false and leaves the state unchanged, for every stripe map. Consequently, in
  every run of a mark task (any number of workers below the sentinel, any stripe maps, any
  schedule of publications, steps of \<open>idle\<close> and timeouts, none of which fails an
  assertion), once a state with the sentinel has been reached every later state has the
  sentinel and no worker is working; a worker that was waiting in \<open>idle\<close> is still
  waiting or has returned true, never false, and its next two steps make \<open>idle\<close> return
  true.
\<close>

theorem exit_idle_mode_never_after_terminate:
  "(nactive_workers s = terminate \<longrightarrow> exit_idle_mode stripe_map s = (False, s))
   \<and> (nworkers' \<noteq> terminate \<longrightarrow>
        (\<exists>t t'. run maps before (start_task nworkers') = Inr t \<and> run maps after t = Inr t'
           \<and> (nactive_workers (tstate t) = terminate \<longrightarrow>
                nactive_workers (tstate t') = terminate
                \<and> (\<forall>i < length (tworkers t).
                      tworkers t' ! i \<noteq> Working
                      \<and> (tworkers t ! i = Idle_terminate \<or> tworkers t ! i = Idle_exit \<longrightarrow>
                           (tworkers t' ! i = Idle_terminate \<or> tworkers t' ! i = Idle_exit
                            \<or> tworkers t' ! i = Terminated)
                           \<and> (\<exists>t''. run maps [Idle i, Idle i] t' = Inr t''
                                  \<and> tworkers t'' ! i = Terminated))))))"
proof (intro conjI impI)
  assume "nactive_workers s = terminate"
  then show "exit_idle_mode stripe_map s = (False, s)"
    by (rule exit_idle_mode_terminate)
next
  assume "nworkers' \<noteq> terminate"
  then have "task_inv (start_task nworkers')"
    by (rule inv_start)
  from run_inv [OF this, of maps before]
  obtain t where b: "run maps before (start_task nworkers') = Inr t" and inv: "task_inv t"
    by blast
  from run_inv [OF inv, of maps after]
  obtain t' where a: "run maps after t = Inr t'" and inv': "task_inv t'"
    and len: "length (tworkers t') = length (tworkers t)"
    and tm: "terminating t \<longrightarrow> terminating t'
        \<and> (\<forall>i < length (tworkers t). idle_progress (tworkers t ! i) (tworkers t' ! i))"
    by blast
  have "nactive_workers (tstate t') = terminate
      \<and> (\<forall>i < length (tworkers t).
            tworkers t' ! i \<noteq> Working
            \<and> (tworkers t ! i = Idle_terminate \<or> tworkers t ! i = Idle_exit \<longrightarrow>
                 (tworkers t' ! i = Idle_terminate \<or> tworkers t' ! i = Idle_exit
                  \<or> tworkers t' ! i = Terminated)
                 \<and> (\<exists>t''. run maps [Idle i, Idle i] t' = Inr t''
                        \<and> tworkers t'' ! i = Terminated)))"
    if s: "nactive_workers (tstate t) = terminate"
  proof -
    from s have "terminating t"
      by (simp add: terminating_def)
    with tm have t': "terminating t'"
      and pr: "\<And>i. i < length (tworkers t) \<Longrightarrow> idle_progress (tworkers t ! i) (tworkers t' ! i)"
      by simp_all
    from t' have s': "nactive_workers (tstate t') = terminate"
      by (simp add: terminating_def)
    have "tworkers t' ! i \<noteq> Working
        \<and> (tworkers t ! i = Idle_terminate \<or> tworkers t ! i = Idle_exit \<longrightarrow>
             (tworkers t' ! i = Idle_terminate \<or> tworkers t' ! i = Idle_exit
              \<or> tworkers t' ! i = Terminated)
             \<and> (\<exists>t''. run maps [Idle i, Idle i] t' = Inr t''
                    \<and> tworkers t'' ! i = Terminated))"
      if i: "i < length (tworkers t)" for i
    proof -
      from i len have i': "i < length (tworkers t')"
        by simp
      then have "tworkers t' ! i \<in> set (tworkers t')"
        by simp
      with inv' t' have nw: "tworkers t' ! i \<noteq> Working"
        by (auto simp add: task_inv_def active_pc_def)
      have w: "tworkers t' ! i = Idle_terminate \<or> tworkers t' ! i = Idle_exit
            \<or> tworkers t' ! i = Terminated"
        if "tworkers t ! i = Idle_terminate \<or> tworkers t ! i = Idle_exit"
        using pr [OF i] that by (auto simp add: idle_progress_def)
      have "\<exists>t''. run maps [Idle i, Idle i] t' = Inr t'' \<and> tworkers t'' ! i = Terminated"
        if "tworkers t ! i = Idle_terminate \<or> tworkers t ! i = Idle_exit"
        using idle_returns_true [OF s' i' w [OF that], of maps] by blast
      with nw w show ?thesis
        by blast
    qed
    with s' show ?thesis
      by blast
  qed
  with b a show "\<exists>t t'. run maps before (start_task nworkers') = Inr t \<and> run maps after t = Inr t'
           \<and> (nactive_workers (tstate t) = terminate \<longrightarrow>
                nactive_workers (tstate t') = terminate
                \<and> (\<forall>i < length (tworkers t).
                      tworkers t' ! i \<noteq> Working
                      \<and> (tworkers t ! i = Idle_terminate \<or> tworkers t ! i = Idle_exit \<longrightarrow>
                           (tworkers t' ! i = Idle_terminate \<or> tworkers t' ! i = Idle_exit
                            \<or> tworkers t' ! i = Terminated)
                           \<and> (\<exists>t''. run maps [Idle i, Idle i] t' = Inr t''
                                  \<and> tworkers t'' ! i = Terminated))))"
    by blast
qed

lemma example_start:
  "start_task 2 = \<lparr>tstate = ZMarkTerminateState 2 0, tworkers = [Working, Working]\<rparr>"
proof -
  have u: "unat (2 :: 32 word) = Suc (Suc 0)"
    by simp
  show ?thesis
    unfolding start_task_def reset_def u by simp
qed

lemma terminate_not_small: "terminate \<noteq> 1" "terminate \<noteq> 2" "(2 :: 32 word) \<noteq> terminate"
  by (simp_all add: terminate_def)

lemma example_run:
  "run (\<lambda>i. 1) [Idle 0, Idle 0, Idle 1, Idle 1] (start_task 2)
     = Inr \<lparr>tstate = ZMarkTerminateState terminate 0, tworkers = [Idle_exit, Terminated]\<rparr>"
  "run (\<lambda>i. 1) [Publish 1, Idle 0]
       \<lparr>tstate = ZMarkTerminateState terminate 0, tworkers = [Idle_exit, Terminated]\<rparr>
     = Inr \<lparr>tstate = ZMarkTerminateState terminate 1, tworkers = [Idle_terminate, Terminated]\<rparr>"
  by (simp_all add: example_start idle_step_def enter_idle_mode_def
      enter_terminate_mode_def exit_idle_mode_def set_active_stripes_def Let_def is_cleared_iff
      terminate_not_small)

theorem exit_idle_mode_never_after_terminate_witness:
  "(2 :: 32 word) \<noteq> terminate
   \<and> nactive_workers (ZMarkTerminateState terminate 1) = terminate
   \<and> exit_idle_mode 1 (ZMarkTerminateState terminate 1) = (False, ZMarkTerminateState terminate 1)
   \<and> run (\<lambda>i. 1) [Idle 0, Idle 0, Idle 1, Idle 1] (start_task 2)
       = Inr \<lparr>tstate = ZMarkTerminateState terminate 0, tworkers = [Idle_exit, Terminated]\<rparr>
   \<and> run (\<lambda>i. 1) [Publish 1, Idle 0]
         \<lparr>tstate = ZMarkTerminateState terminate 0, tworkers = [Idle_exit, Terminated]\<rparr>
       = Inr \<lparr>tstate = ZMarkTerminateState terminate 1, tworkers = [Idle_terminate, Terminated]\<rparr>
   \<and> (\<exists>t. run (\<lambda>i. 1) [Idle 0, Idle 0]
              \<lparr>tstate = ZMarkTerminateState terminate 1, tworkers = [Idle_terminate, Terminated]\<rparr>
            = Inr t \<and> tworkers t ! 0 = Terminated)"
proof -
  let ?T = "\<lparr>tstate = ZMarkTerminateState terminate 0, tworkers = [Idle_exit, Terminated]\<rparr>"
  let ?T' = "\<lparr>tstate = ZMarkTerminateState terminate 1, tworkers = [Idle_terminate, Terminated]\<rparr>"
  note c6 = exit_idle_mode_never_after_terminate
    [of "ZMarkTerminateState terminate 1" 1 2 "\<lambda>i. 1" "[Idle 0, Idle 0, Idle 1, Idle 1]"
        "[Publish 1, Idle 0]"]
  have s: "nactive_workers (ZMarkTerminateState terminate 1) = terminate"
    by simp
  from c6 s have e: "exit_idle_mode 1 (ZMarkTerminateState terminate 1)
      = (False, ZMarkTerminateState terminate 1)"
    by blast
  from c6 terminate_not_small(3)
  obtain t t' where r: "run (\<lambda>i. 1) [Idle 0, Idle 0, Idle 1, Idle 1] (start_task 2) = Inr t"
      "run (\<lambda>i. 1) [Publish 1, Idle 0] t = Inr t'"
    and c: "nactive_workers (tstate t) = terminate \<longrightarrow>
          (\<forall>i < length (tworkers t).
             tworkers t ! i = Idle_terminate \<or> tworkers t ! i = Idle_exit \<longrightarrow>
               (\<exists>t''. run (\<lambda>i. 1) [Idle i, Idle i] t' = Inr t'' \<and> tworkers t'' ! i = Terminated))"
    by blast
  from r(1) have t: "t = ?T"
    unfolding example_run(1) by simp
  from r(2) have t': "t' = ?T'"
    unfolding t example_run(2) by simp
  have h: "nactive_workers (tstate ?T) = terminate" "0 < length (tworkers ?T)"
    "tworkers ?T ! 0 = Idle_terminate \<or> tworkers ?T ! 0 = Idle_exit"
    by simp_all
  have "\<exists>t''. run (\<lambda>i. 1) [Idle 0, Idle 0] ?T' = Inr t'' \<and> tworkers t'' ! 0 = Terminated"
    by (rule c [unfolded t t', rule_format, OF h])
  with s e example_run terminate_not_small(3) show ?thesis
    by blast
qed


section \<open>Properties of the director\<close>

lemmas double_eval = double_of_nat_def double_of_decimal_def round_double_def round_at_def
  round_quotient_def pack_def nearest_even_def floor_log2_def floor_log2_from_def
  bitlen.simps ge_pow2_def scaled_def round_sum_def ceil_parts_def
  fsub_def fgt_def fge_def MAX2_def MIN2_def uint_of_double_def size_t_of_double_def

lemma not_fless_iff_fle:
  "\<not> is_nan x \<Longrightarrow> \<not> is_nan y \<Longrightarrow> (\<not> fless x y) = fle y x"
  by (cases x; cases y) (auto simp add: is_nan_def min.commute)

lemma literal_values:
  "double_of_decimal 10 1 = double_of_nat 1"
  "double_of_decimal 50 2 = double_of_decimal 5 1"
  "\<not> is_nan (double_of_decimal 15 2)"
  "\<not> is_nan (double_of_nat 0)"
  by (simp_all add: double_eval is_nan_def)

lemma free_eq:
  "sm - min sm u - min (sm - min sm u) h = nat (max 0 (max 0 (int sm - int u) - int h))"
  by linarith

lemma clamp_spec_clamp:
  "1 \<le> c \<Longrightarrow> int (clamp (nat k) 1 c) = spec_clamp k 1 (int c)"
  unfolding clamp_def spec_clamp_def by linarith

lemma uint_of_ceil:
  assumes "ceil_is_uint x"
  shows "uint_of_double (fceil x) = nat (spec_ceil x)"
proof (cases "truncated (fceil x)")
  case None
  with assms show ?thesis
    by (simp add: ceil_is_uint_def)
next
  case (Some t)
  with assms have t: "0 \<le> t" "t < 2 ^ 32"
    by (simp_all add: ceil_is_uint_def)
  then have "t mod 2 ^ 32 = t"
    by simp
  with Some t show ?thesis
    by (simp add: uint_of_double_def spec_ceil_def)
qed

lemma discrete_eq:
  assumes "1 \<le> ConcGCThreads e" and "ceil_is_uint x"
  shows "int (discrete_gc_workers e x) = spec_clamp (spec_ceil x) 1 (int (ConcGCThreads e))"
  unfolding discrete_gc_workers_def uint_of_ceil [OF assms(2)]
  using assms(1) by (rule clamp_spec_clamp)

lemma usub_wrap:
  fixes a b m :: nat
  assumes "b \<le> a" "a < m"
  shows "(a + m - b) mod m = a - b"
proof -
  have e: "a + m - b = (a - b) + m"
    using assms by linarith
  have lt: "a - b < m"
    using assms by linarith
  have "(a + m - b) mod m = ((a - b) + m) mod m"
    by (simp only: e)
  also have "\<dots> = (a - b) mod m"
    by (rule mod_add_self2)
  also have "\<dots> = a - b"
    using lt by (rule mod_less)
  finally show ?thesis .
qed

lemma usub32_eq: "b \<le> a \<Longrightarrow> a < 2 ^ 32 \<Longrightarrow> usub32 a b = a - b"
  unfolding usub32_def by (rule usub_wrap)

lemma discrete_bounds:
  "1 \<le> ConcGCThreads e \<Longrightarrow> 1 \<le> discrete_gc_workers e x \<and> discrete_gc_workers e x \<le> ConcGCThreads e"
  unfolding discrete_gc_workers_def clamp_def by linarith

text \<open>
  The rules computed step by step: when the intermediate values are given names, the
  result of a rule is its last test on the named values.
\<close>

lemma select_gc_workers_no_friction:
  assumes "estimated_gc_workers serial par (double_of_nat 10) = avoid_long"
    and "estimated_gc_workers serial par oom = avoid_oom"
    and "MAX2 avoid_long avoid_oom = gc_workers"
    and "discrete_gc_workers e gc_workers = actual"
    and "\<not> actual < last_active_workers e"
  shows "select_gc_workers e serial par oom = gc_workers"
  using assms(5) unfolding select_gc_workers_def Let_def assms(1-4)
  by (simp only: if_False)

lemma rule_allocation_rate_dynamic_steps:
  assumes "is_time_trustable e"
    and "sdp = fdiv (alloc_rate_sd e) (fadd (alloc_rate_avg e) (double_of_decimal 10 1))"
    and "rate = fadd (fadd (fmul (alloc_rate_avg e) (ZAllocationSpikeTolerance e))
                           (fmul (alloc_rate_sd e) one_in_1000))
                     (double_of_decimal 10 1)"
    and "free = soft_max_capacity e - min (soft_max_capacity e) (used e)
           - min (soft_max_capacity e - min (soft_max_capacity e) (used e)) (relocation_headroom e)"
    and "oom = (if \<not> fless sdp (double_of_decimal 15 2)
                then fdiv (fdiv (double_of_nat free) rate) (fadd (double_of_decimal 10 1) sdp)
                else fdiv (double_of_nat free) rate)"
    and "serial = fadd (serial_time_davg e) (fmul (serial_time_dsd e) one_in_1000)"
    and "par = fadd (parallelizable_time_davg e) (fmul (parallelizable_time_dsd e) one_in_1000)"
    and "sel = select_gc_workers e serial par oom"
    and "gw = (if \<not> fless sdp (double_of_decimal 15 2)
               then MAX2 sel (double_of_nat (last_active_workers e)) else sel)"
    and "actual = discrete_gc_workers e gw"
    and "tug = fsub (fsub (fsub oom (fadd serial (fdiv par (double_of_nat actual)))) sample_interval)
                    (fmul (double_of_nat (usub32 (ConcGCThreads e) actual)) sample_interval)"
  shows "rule_allocation_rate_dynamic e =
      (if actual \<le> last_active_workers e \<and> fgt tug (double_of_nat 0)
       then \<lparr>cause = no_gc, nworkers = actual\<rparr>
       else \<lparr>cause = z_allocation_rate, nworkers = actual\<rparr>)"
  unfolding rule_allocation_rate_dynamic_def Let_def assms(11) assms(10) assms(9) assms(8)
    assms(5) assms(4) assms(3) assms(2) assms(6) assms(7)
  by (simp only: assms(1) not_True_eq_False if_False)

lemma rule_allocation_rate_dynamic_orig_steps:
  assumes "is_time_trustable e"
    and "rate = fadd (fadd (fmul (alloc_rate_avg e) (ZAllocationSpikeTolerance e))
                           (fmul (alloc_rate_sd e) (double_of_decimal 3290527 6)))
                     (double_of_decimal 10 1)"
    and "mutator_max = usub64 (soft_max_capacity e) (relocation_headroom e)"
    and "sdp = fdiv (alloc_rate_sd e) (fadd (alloc_rate_avg e) (double_of_decimal 10 1))"
    and "free_bytes = (if mutator_max > used e then mutator_max - used e else 0)"
    and "oom0 = MAX2 (fsub (fdiv (double_of_nat free_bytes) rate) sample_interval)
                     (double_of_decimal 1 3)"
    and "serial = fadd (serial_time_davg e) (fmul (serial_time_dsd e) one_in_1000)"
    and "par = fadd (parallelizable_time_davg e) (fmul (parallelizable_time_dsd e) one_in_1000)"
    and "cpu = fadd serial par"
    and "min_n = clamp (uint_of_double (fceil (fdiv cpu (double_of_nat 10)))) 1 (ConcGCThreads e)"
    and "oom = (if fge sdp (double_of_decimal 15 2)
                then fdiv oom0 (fadd (double_of_decimal 10 1) sdp) else oom0)"
    and "n_ideal = fdiv cpu oom"
    and "n = (if fge sdp (double_of_decimal 15 2)
              then clamp (uint_of_double (fceil n_ideal)) (max min_n (last_active_workers e))
                         (ConcGCThreads e)
              else
                let n1 = clamp (uint_of_double (fceil n_ideal)) min_n (ConcGCThreads e)
                in if n1 < last_active_workers e then
                     let gc_duration_delta =
                           fmul cpu
                             (fsub (fdiv (double_of_decimal 10 1) (double_of_nat n1))
                                   (fdiv (double_of_decimal 10 1)
                                         (double_of_nat (last_active_workers e))));
                         additional_time_for_allocations_to_happen =
                           fsub (fsub (time_since_last e) gc_duration_delta) sample_interval;
                         next_time_till_oom = fadd oom additional_time_for_allocations_to_happen;
                         n_ideal_next_gc = fdiv cpu (MAX2 next_time_till_oom (double_of_decimal 1 3))
                     in clamp (uint_of_double (fceil (fadd n_ideal_next_gc (double_of_decimal 50 2))))
                              min_n (last_active_workers e)
                   else n1)"
    and "ttg = fsub oom (fadd (fdiv cpu (double_of_nat n))
                 (fadd sample_interval
                    (fmul (double_of_nat (usub32 (ConcGCThreads e) n)) sample_interval)))"
  shows "rule_allocation_rate_dynamic_orig e =
      (if n > last_active_workers e \<or> fle ttg (double_of_nat 0)
       then \<lparr>cause = z_allocation_rate, nworkers = n\<rparr>
       else \<lparr>cause = no_gc, nworkers = n\<rparr>)"
  unfolding rule_allocation_rate_dynamic_orig_def assms(14) assms(13) assms(12) assms(11) assms(10)
    assms(9) assms(8) assms(7) assms(6) assms(5) assms(4) assms(3) assms(2) Let_def
  by (simp only: assms(1) not_True_eq_False if_False)

text \<open>
  C1. With trustworthy cycle times, \<open>rule_allocation_rate_dynamic\<close> returns the request
  the specification words: the worker count is \<open>actual = clamp(ceil(n), 1, ConcGCThreads)\<close>,
  where \<open>n\<close> is chosen by \<open>select_gc_workers\<close> (with the downshift friction
  \<open>min(ceil(next_want + 0.5), last_active_workers)\<close> when the candidate is below
  \<open>last_active_workers\<close>) and raised to at least \<open>last_active_workers\<close> when the
  allocation rate is not steady (\<open>sd / (avg + 1.0) >= 0.15\<close>); the cause is the
  allocation-rate cause exactly when \<open>actual > last_active_workers\<close> or
  \<open>time_until_gc <= 0\<close>, and no cause otherwise, with the same worker count.

  The formulas are formulas on numbers, so the statement is made where the doubles are
  numbers and the conversions of the code are defined: \<open>ConcGCThreads\<close> is between 1 and
  the range of \<open>uint\<close>, \<open>sd / (avg + 1.0)\<close> and \<open>time_until_gc\<close> are no NaN, and
  \<open>ceil(want)\<close> and \<open>ceil(n)\<close> are values of \<open>uint\<close>.
\<close>

theorem rule_allocation_rate_dynamic_spec:
  assumes tr: "is_time_trustable e"
    and c1: "1 \<le> ConcGCThreads e"
    and c2: "ConcGCThreads e < 2 ^ 32"
    and n1: "\<not> is_nan (spec_sd_percent e)"
    and n2: "\<not> is_nan (spec_time_until_gc e)"
    and u1: "ceil_is_uint (spec_want e)"
    and u2: "ceil_is_uint (spec_n e)"
  shows "rule_allocation_rate_dynamic e = spec_rule_allocation_rate_dynamic e"
proof -
  define serial where "serial = fadd (serial_time_davg e) (fmul (serial_time_dsd e) one_in_1000)"
  define par where
    "par = fadd (parallelizable_time_davg e) (fmul (parallelizable_time_dsd e) one_in_1000)"
  define sdp where
    "sdp = fdiv (alloc_rate_sd e) (fadd (alloc_rate_avg e) (double_of_decimal 10 1))"
  define free where "free = soft_max_capacity e - min (soft_max_capacity e) (used e)
      - min (soft_max_capacity e - min (soft_max_capacity e) (used e)) (relocation_headroom e)"
  define rate where
    "rate = fadd (fadd (fmul (alloc_rate_avg e) (ZAllocationSpikeTolerance e))
                       (fmul (alloc_rate_sd e) one_in_1000))
                 (double_of_decimal 10 1)"
  define oom where
    "oom = (if \<not> fless sdp (double_of_decimal 15 2)
            then fdiv (fdiv (double_of_nat free) rate) (fadd (double_of_decimal 10 1) sdp)
            else fdiv (double_of_nat free) rate)"
  define sel where "sel = select_gc_workers e serial par oom"
  define gw where
    "gw = (if \<not> fless sdp (double_of_decimal 15 2)
           then MAX2 sel (double_of_nat (last_active_workers e)) else sel)"
  define actual where "actual = discrete_gc_workers e gw"
  define tug where
    "tug = fsub (fsub (fsub oom (fadd serial (fdiv par (double_of_nat actual)))) sample_interval)
                (fmul (double_of_nat (usub32 (ConcGCThreads e) actual)) sample_interval)"
  have code: "rule_allocation_rate_dynamic e =
      (if actual \<le> last_active_workers e \<and> fgt tug (double_of_nat 0)
       then \<lparr>cause = no_gc, nworkers = actual\<rparr>
       else \<lparr>cause = z_allocation_rate, nworkers = actual\<rparr>)"
    using tr sdp_def rate_def free_def oom_def serial_def par_def sel_def gw_def actual_def tug_def
    by (rule rule_allocation_rate_dynamic_steps)
  have s_serial: "spec_serial_gc_time e = serial"
    by (simp add: spec_serial_gc_time_def serial_def one_in_1000_def)
  have s_par: "spec_parallelizable_gc_time e = par"
    by (simp add: spec_parallelizable_gc_time_def par_def one_in_1000_def)
  have s_sdp: "spec_sd_percent e = sdp"
    by (simp add: spec_sd_percent_def sdp_def)
  have s_ns: "spec_not_steady e \<longleftrightarrow> \<not> fless sdp (double_of_decimal 15 2)"
    using n1 literal_values(3)
    by (simp add: spec_not_steady_def s_sdp fge_def not_fless_iff_fle)
  have s_free: "nat (spec_free e) = free"
    unfolding free_def spec_free_def Let_def by (rule free_eq [symmetric])
  have s_oom: "spec_time_until_oom e = oom"
    unfolding spec_time_until_oom_def Let_def s_ns s_sdp s_free oom_def rate_def one_in_1000_def
      literal_values(1)
    by (rule refl)
  have s_wl: "spec_workers_long e t = estimated_gc_workers serial par t" for t
    by (simp add: spec_workers_long_def estimated_gc_workers_def s_serial s_par)
  define want where
    "want = MAX2 (estimated_gc_workers serial par (double_of_nat 10))
                 (estimated_gc_workers serial par oom)"
  have s_want: "spec_want e = want"
    by (simp add: spec_want_def want_def s_wl s_oom)
  define a0 where "a0 = discrete_gc_workers e want"
  have a0_eq: "int a0 = spec_candidate e"
    unfolding a0_def spec_candidate_def s_want
    using c1 u1 [unfolded s_want] by (rule discrete_eq)
  then have a0_nat: "nat (spec_candidate e) = a0"
    by linarith
  define nxt where
    "nxt = MAX2 (estimated_gc_workers serial par (double_of_nat 10))
             (estimated_gc_workers serial par
                (fadd oom
                   (fsub (fsub (time_since_last e)
                            (fsub (fdiv par (double_of_nat a0))
                                  (fdiv par (double_of_nat (last_active_workers e)))))
                         sample_interval)))"
  have sel_eq: "sel = (if a0 < last_active_workers e
      then MIN2 (fceil (fadd nxt (double_of_decimal 50 2))) (double_of_nat (last_active_workers e))
      else want)"
    unfolding sel_def select_gc_workers_def Let_def nxt_def a0_def want_def
    by (rule refl)
  have s_nxt: "spec_next_want e = nxt"
    unfolding spec_next_want_def Let_def s_wl s_oom s_par a0_nat nxt_def
    by (rule refl)
  have cand: "spec_candidate e < int (last_active_workers e) \<longleftrightarrow> a0 < last_active_workers e"
    unfolding a0_eq [symmetric] by simp
  have s_sel: "spec_select_gc_workers e = sel"
    unfolding spec_select_gc_workers_def cand s_nxt s_want sel_eq literal_values(2)
    by (rule refl)
  have s_n: "spec_n e = gw"
    unfolding spec_n_def s_ns s_sel gw_def by (rule refl)
  have s_actual: "spec_actual e = int actual"
    unfolding spec_actual_def actual_def s_n
    using c1 u2 [unfolded s_n] by (rule discrete_eq [symmetric])
  have ab: "1 \<le> actual \<and> actual \<le> ConcGCThreads e"
    unfolding actual_def using c1 by (rule discrete_bounds)
  then have "usub32 (ConcGCThreads e) actual = ConcGCThreads e - actual"
    using c2 usub32_eq by blast
  also have "\<dots> = nat (int (ConcGCThreads e) - int actual)"
    by linarith
  finally have slack: "nat (int (ConcGCThreads e) - int actual) = usub32 (ConcGCThreads e) actual"
    by (rule sym)
  have s_tug: "spec_time_until_gc e = tug"
    unfolding spec_time_until_gc_def Let_def s_actual s_oom s_serial s_par tug_def slack
    by simp
  have "\<not> fgt tug (double_of_nat 0) \<longleftrightarrow> fle tug (double_of_nat 0)"
    unfolding fgt_def using literal_values(4) n2 [unfolded s_tug] by (rule not_fless_iff_fle)
  then have fire: "spec_fire e \<longleftrightarrow> \<not> (actual \<le> last_active_workers e \<and> fgt tug (double_of_nat 0))"
    unfolding spec_fire_def s_actual s_tug by auto
  show ?thesis
    unfolding code spec_rule_allocation_rate_dynamic_def fire s_actual
    by simp
qed

text \<open>The fields of the three environments.\<close>

lemma example_env_fields [simp]:
  "\<not> driver_is_busy example_env" "default_nworkers example_env = 8"
  "\<not> has_alloc_stalled example_env" "is_warm example_env"
  "is_time_trustable example_env" "soft_max_capacity example_env = 2" "used example_env = 0"
  "relocation_headroom example_env = 0"
  "time_since_last example_env = double_of_nat 0" "last_active_workers example_env = 1"
  "alloc_rate_avg example_env = double_of_nat 0" "alloc_rate_sd example_env = double_of_nat 0"
  "serial_time_davg example_env = double_of_nat 0" "serial_time_dsd example_env = double_of_nat 0"
  "parallelizable_time_davg example_env = double_of_decimal 39 1" "parallelizable_time_dsd example_env = double_of_nat 0"
  "ZCollectionInterval example_env = double_of_nat 0"
  "ZAllocationSpikeTolerance example_env = double_of_nat 2" "\<not> ZProactive example_env"
  "ConcGCThreads example_env = 8"
  "UseDynamicNumberOfGCThreads example_env" "\<not> UseNewCode example_env"
  by (simp_all add: example_env_def)

lemma rounding_env_fields [simp]:
  "\<not> driver_is_busy rounding_env" "default_nworkers rounding_env = 8"
  "\<not> has_alloc_stalled rounding_env" "is_warm rounding_env"
  "is_time_trustable rounding_env" "soft_max_capacity rounding_env = 1" "used rounding_env = 0"
  "relocation_headroom rounding_env = 0"
  "time_since_last rounding_env = double_of_nat 0" "last_active_workers rounding_env = 0"
  "alloc_rate_avg rounding_env = double_of_nat 1" "alloc_rate_sd rounding_env = double_of_nat 0"
  "serial_time_davg rounding_env = double_of_decimal 125 3" "serial_time_dsd rounding_env = double_of_nat 0"
  "parallelizable_time_davg rounding_env = double_of_decimal 125 2" "parallelizable_time_dsd rounding_env = double_of_nat 0"
  "ZCollectionInterval rounding_env = double_of_nat 0"
  "ZAllocationSpikeTolerance rounding_env = double_of_nat 2" "\<not> ZProactive rounding_env"
  "ConcGCThreads rounding_env = 8"
  "UseDynamicNumberOfGCThreads rounding_env" "\<not> UseNewCode rounding_env"
  by (simp_all add: rounding_env_def)

lemma friction_env_fields [simp]:
  "\<not> driver_is_busy friction_env" "default_nworkers friction_env = 8"
  "\<not> has_alloc_stalled friction_env" "is_warm friction_env"
  "is_time_trustable friction_env" "soft_max_capacity friction_env = 2147483648" "used friction_env = 0"
  "relocation_headroom friction_env = 0"
  "time_since_last friction_env = double_of_nat 1" "last_active_workers friction_env = 4"
  "alloc_rate_avg friction_env = double_of_nat 524288000" "alloc_rate_sd friction_env = double_of_nat 20971520"
  "serial_time_davg friction_env = double_of_decimal 5 2" "serial_time_dsd friction_env = double_of_nat 0"
  "parallelizable_time_davg friction_env = double_of_decimal 40 2" "parallelizable_time_dsd friction_env = double_of_nat 0"
  "ZCollectionInterval friction_env = double_of_nat 0"
  "ZAllocationSpikeTolerance friction_env = double_of_nat 2" "\<not> ZProactive friction_env"
  "ConcGCThreads friction_env = 8"
  "UseDynamicNumberOfGCThreads friction_env" "\<not> UseNewCode friction_env"
  by (simp_all add: friction_env_def)

text \<open>
  The two dynamic variants on the example environment, computed step by step in double
  precision: the new variant asks for two workers, the original variant for three.
\<close>

lemma example_select:
  "select_gc_workers example_env (Finite False 0 (- 1074)) (Finite False 8782019273372467 (- 51)) (Finite False 4503599627370496 (- 51)) = (Finite False 8782019273372467 (- 52))"
proof -
  have "estimated_gc_workers (Finite False 0 (- 1074)) (Finite False 8782019273372467 (- 51)) (double_of_nat 10) = (Finite False 7025615418697974 (- 54))"
    by (simp add: estimated_gc_workers_def double_eval)
  moreover have "estimated_gc_workers (Finite False 0 (- 1074)) (Finite False 8782019273372467 (- 51)) (Finite False 4503599627370496 (- 51)) = (Finite False 8782019273372467 (- 52))"
    by (simp add: estimated_gc_workers_def double_eval)
  moreover have "MAX2 (Finite False 7025615418697974 (- 54)) (Finite False 8782019273372467 (- 52)) = (Finite False 8782019273372467 (- 52))"
    by (simp add: double_eval)
  moreover have "discrete_gc_workers example_env (Finite False 8782019273372467 (- 52)) = 2"
    by (simp add: discrete_gc_workers_def clamp_def double_eval)
  ultimately show ?thesis
    by (intro select_gc_workers_no_friction [where actual = 2]) simp_all
qed

lemma example_dynamic:
  "rule_allocation_rate_dynamic example_env = \<lparr>cause = z_allocation_rate, nworkers = 2\<rparr>"
proof -
  have u: "usub32 8 2 = 6"
    by (simp add: usub32_def)
  have "rule_allocation_rate_dynamic example_env =
      (if 2 \<le> last_active_workers example_env \<and> fgt (Finite True 5854679515581645 (- 53)) (double_of_nat 0)
       then \<lparr>cause = no_gc, nworkers = 2\<rparr>
       else \<lparr>cause = z_allocation_rate, nworkers = 2\<rparr>)"
  proof (rule rule_allocation_rate_dynamic_steps [where sdp = "(Finite False 0 (- 1074))" and rate = "(Finite False 4503599627370496 (- 52))" and free = 2
        and oom = "(Finite False 4503599627370496 (- 51))" and serial = "(Finite False 0 (- 1074))" and par = "(Finite False 8782019273372467 (- 51))" and sel = "(Finite False 8782019273372467 (- 52))" and gw = "(Finite False 8782019273372467 (- 52))"])
    show "(Finite False 8782019273372467 (- 52)) = select_gc_workers example_env (Finite False 0 (- 1074)) (Finite False 8782019273372467 (- 51)) (Finite False 4503599627370496 (- 51))"
      by (simp only: example_select)
    show "2 = discrete_gc_workers example_env (Finite False 8782019273372467 (- 52))"
      by (simp add: discrete_gc_workers_def clamp_def double_eval)
  qed (simp_all add: one_in_1000_def sample_interval_def sample_hz_def u double_eval)
  then show ?thesis
    by (simp add: double_eval)
qed

lemma example_orig:
  "rule_allocation_rate_dynamic_orig example_env = \<lparr>cause = z_allocation_rate, nworkers = 3\<rparr>"
proof -
  have u: "usub32 8 3 = 5" "usub64 2 0 = 2"
    by (simp_all add: usub32_def usub64_def)
  have "rule_allocation_rate_dynamic_orig example_env =
      (if 3 > last_active_workers example_env \<or> fle (Finite False 0 (- 1074)) (double_of_nat 0)
       then \<lparr>cause = z_allocation_rate, nworkers = 3\<rparr>
       else \<lparr>cause = no_gc, nworkers = 3\<rparr>)"
    by (rule rule_allocation_rate_dynamic_orig_steps [where rate = "(Finite False 4503599627370496 (- 52))" and mutator_max = 2
        and sdp = "(Finite False 0 (- 1074))" and free_bytes = 2 and oom0 = "(Finite False 8556839292003942 (- 52))" and serial = "(Finite False 0 (- 1074))" and par = "(Finite False 8782019273372467 (- 51))"
        and cpu = "(Finite False 8782019273372467 (- 51))" and min_n = 1 and oom = "(Finite False 8556839292003942 (- 52))" and n_ideal = "(Finite False 4622115407038141 (- 51))"])
      (simp_all add: one_in_1000_def sample_interval_def sample_hz_def clamp_def u double_eval Let_def)
  then show ?thesis
    by (simp add: double_eval)
qed

text \<open>
  On the rounding environment the quotient of the doubles is the next number above 6, and
  the rule asks for seven workers.
\<close>

lemma rounding_select:
  "select_gc_workers rounding_env (Finite False 4503599627370496 (- 55)) (Finite False 5629499534213120 (- 52)) (Finite False 6004799503160661 (- 54)) = (Finite False 6755399441055745 (- 50))"
proof -
  have "estimated_gc_workers (Finite False 4503599627370496 (- 55)) (Finite False 5629499534213120 (- 52)) (double_of_nat 10) = (Finite False 4560607217590376 (- 55))"
    by (simp add: estimated_gc_workers_def double_eval)
  moreover have "estimated_gc_workers (Finite False 4503599627370496 (- 55)) (Finite False 5629499534213120 (- 52)) (Finite False 6004799503160661 (- 54)) = (Finite False 6755399441055745 (- 50))"
    by (simp add: estimated_gc_workers_def double_eval)
  moreover have "MAX2 (Finite False 4560607217590376 (- 55)) (Finite False 6755399441055745 (- 50)) = (Finite False 6755399441055745 (- 50))"
    by (simp add: double_eval)
  moreover have "discrete_gc_workers rounding_env (Finite False 6755399441055745 (- 50)) = 7"
    by (simp add: discrete_gc_workers_def clamp_def double_eval)
  ultimately show ?thesis
    by (intro select_gc_workers_no_friction [where actual = 7]) simp_all
qed

lemma rounding_dynamic:
  "rule_allocation_rate_dynamic rounding_env = \<lparr>cause = z_allocation_rate, nworkers = 7\<rparr>"
proof -
  have u: "usub32 8 7 = 1"
    by (simp add: usub32_def)
  have "rule_allocation_rate_dynamic rounding_env =
      (if 7 \<le> last_active_workers rounding_env \<and> fgt (Finite True 6133473778228392 (- 55)) (double_of_nat 0)
       then \<lparr>cause = no_gc, nworkers = 7\<rparr>
       else \<lparr>cause = z_allocation_rate, nworkers = 7\<rparr>)"
  proof (rule rule_allocation_rate_dynamic_steps [where sdp = "(Finite False 0 (- 1074))" and rate = "(Finite False 6755399441055744 (- 51))" and free = 1
        and oom = "(Finite False 6004799503160661 (- 54))" and serial = "(Finite False 4503599627370496 (- 55))" and par = "(Finite False 5629499534213120 (- 52))" and sel = "(Finite False 6755399441055745 (- 50))" and gw = "(Finite False 6755399441055745 (- 50))"])
    show "(Finite False 6755399441055745 (- 50)) = select_gc_workers rounding_env (Finite False 4503599627370496 (- 55)) (Finite False 5629499534213120 (- 52)) (Finite False 6004799503160661 (- 54))"
      by (simp only: rounding_select)
    show "7 = discrete_gc_workers rounding_env (Finite False 6755399441055745 (- 50))"
      by (simp add: discrete_gc_workers_def clamp_def double_eval)
  qed (simp_all add: one_in_1000_def sample_interval_def sample_hz_def u double_eval)
  then show ?thesis
    by (simp add: double_eval)
qed

text \<open>
  The specification's formulas on its second worked example, where the downshift friction
  applies: the candidate is one worker, below the four of the last cycle, and the result is
  one worker and no cause.
\<close>

lemma friction_spec_times:
  "spec_serial_gc_time friction_env = (Finite False 7205759403792794 (- 57))"
  "spec_parallelizable_gc_time friction_env = (Finite False 7205759403792794 (- 54))"
  "spec_sd_percent friction_env = (Finite False 5764607512039119 (- 57))"
  by (simp_all add: spec_serial_gc_time_def spec_parallelizable_gc_time_def spec_sd_percent_def
      double_eval)

lemma friction_spec_steady: "\<not> spec_not_steady friction_env"
  by (simp add: spec_not_steady_def friction_spec_times double_eval)

lemma friction_spec_oom: "spec_time_until_oom friction_env = (Finite False 8653857024722063 (- 52))"
  by (simp add: spec_time_until_oom_def spec_free_def Let_def friction_spec_steady double_eval)

lemma friction_spec_long:
  "spec_workers_long friction_env (Finite False 5629499534213120 (- 49)) = (Finite False 5793575400034408 (- 57))"
  "spec_workers_long friction_env (Finite False 8653857024722063 (- 52)) = (Finite False 7700343766625320 (- 55))"
  "spec_workers_long friction_env (Finite False 5678008400572180 (- 51)) = (Finite False 5830982142903470 (- 55))"
  by (simp_all add: spec_workers_long_def friction_spec_times double_eval)

lemma friction_spec_want: "spec_want friction_env = (Finite False 7700343766625320 (- 55))"
proof -
  have "double_of_nat 10 = (Finite False 5629499534213120 (- 49))"
    by (simp add: double_eval)
  then have "spec_want friction_env = MAX2 (Finite False 5793575400034408 (- 57)) (Finite False 7700343766625320 (- 55))"
    by (simp only: spec_want_def friction_spec_oom friction_spec_long)
  then show ?thesis
    by (simp add: double_eval)
qed

lemma friction_spec_candidate: "spec_candidate friction_env = 1"
  by (simp add: spec_candidate_def spec_clamp_def spec_ceil_def friction_spec_want double_eval)

lemma friction_spec_next_oom:
  "fadd (spec_time_until_oom friction_env)
     (fsub (fsub (time_since_last friction_env)
        (fsub (fdiv (spec_parallelizable_gc_time friction_env) (double_of_nat (nat (spec_candidate friction_env))))
              (fdiv (spec_parallelizable_gc_time friction_env) (double_of_nat (last_active_workers friction_env)))))
        sample_interval) = (Finite False 5678008400572180 (- 51))"
  by (simp add: friction_spec_oom friction_spec_times friction_spec_candidate sample_interval_def sample_hz_def
      double_eval)

lemma friction_spec_next: "spec_next_want friction_env = (Finite False 5830982142903470 (- 55))"
proof -
  have "double_of_nat 10 = (Finite False 5629499534213120 (- 49))"
    by (simp add: double_eval)
  then have "spec_next_want friction_env = MAX2 (Finite False 5793575400034408 (- 57)) (Finite False 5830982142903470 (- 55))"
    by (simp only: spec_next_want_def Let_def friction_spec_next_oom friction_spec_long)
  then show ?thesis
    by (simp add: double_eval)
qed

lemma friction_spec_select: "spec_select_gc_workers friction_env = (Finite False 4503599627370496 (- 52))"
  by (simp add: spec_select_gc_workers_def friction_spec_candidate friction_spec_next double_eval)

lemma friction_spec_n: "spec_n friction_env = (Finite False 4503599627370496 (- 52))"
  by (simp add: spec_n_def friction_spec_steady friction_spec_select)

lemma friction_spec_actual: "spec_actual friction_env = 1"
  by (simp add: spec_actual_def spec_clamp_def spec_ceil_def friction_spec_n double_eval)

lemma friction_spec_time_until_gc: "spec_time_until_gc friction_env = (Finite False 6048714981017885 (- 53))"
  by (simp add: spec_time_until_gc_def Let_def friction_spec_actual friction_spec_oom friction_spec_times
      sample_interval_def sample_hz_def double_eval)

lemma friction_spec_rule:
  "spec_rule_allocation_rate_dynamic friction_env = \<lparr>cause = no_gc, nworkers = 1\<rparr>"
  by (simp add: spec_rule_allocation_rate_dynamic_def spec_fire_def friction_spec_actual
      friction_spec_time_until_gc double_eval)

theorem rule_allocation_rate_dynamic_spec_witness:
  "is_time_trustable friction_env \<and> 1 \<le> ConcGCThreads friction_env \<and> ConcGCThreads friction_env < 2 ^ 32
   \<and> \<not> is_nan (spec_sd_percent friction_env) \<and> \<not> is_nan (spec_time_until_gc friction_env)
   \<and> ceil_is_uint (spec_want friction_env) \<and> ceil_is_uint (spec_n friction_env)
   \<and> spec_candidate friction_env < int (last_active_workers friction_env)
   \<and> rule_allocation_rate_dynamic friction_env = \<lparr>cause = no_gc, nworkers = 1\<rparr>"
proof -
  have h: "is_time_trustable friction_env" "1 \<le> ConcGCThreads friction_env" "ConcGCThreads friction_env < 2 ^ 32"
    "\<not> is_nan (spec_sd_percent friction_env)" "\<not> is_nan (spec_time_until_gc friction_env)"
    "ceil_is_uint (spec_want friction_env)" "ceil_is_uint (spec_n friction_env)"
    by (simp_all add: friction_spec_times friction_spec_time_until_gc friction_spec_want friction_spec_n is_nan_def
        ceil_is_uint_def double_eval)
  have f: "spec_candidate friction_env < int (last_active_workers friction_env)"
    by (simp add: friction_spec_candidate)
  from rule_allocation_rate_dynamic_spec [OF h] friction_spec_rule h f show ?thesis
    by simp
qed

text \<open>
  C2, as amended. With \<open>UseDynamicNumberOfGCThreads\<close> enabled,
  \<open>rule_allocation_rate\<close> returns the request of the new variant when \<open>UseNewCode\<close>
  is set and the request of the original variant when it is not. When the cycle times are
  not trustworthy the original variant does not change the emitted request, whatever
  \<open>UseNewCode\<close> is: both variants then return the same request, without a cause and
  with the default worker count, and that is the request of the rule.
\<close>

theorem rule_allocation_rate_selects:
  assumes "UseDynamicNumberOfGCThreads e"
  shows "(UseNewCode e \<longrightarrow> rule_allocation_rate e = rule_allocation_rate_dynamic e)
       \<and> (\<not> UseNewCode e \<longrightarrow> rule_allocation_rate e = rule_allocation_rate_dynamic_orig e)
       \<and> (\<not> is_time_trustable e \<longrightarrow>
            rule_allocation_rate_dynamic_orig e = rule_allocation_rate_dynamic e
            \<and> rule_allocation_rate e = rule_allocation_rate_dynamic e
            \<and> rule_allocation_rate e = \<lparr>cause = no_gc, nworkers = default_nworkers e\<rparr>)"
proof -
  have sel: "rule_allocation_rate e =
      (if UseNewCode e then rule_allocation_rate_dynamic e else rule_allocation_rate_dynamic_orig e)"
    using assms by (simp add: rule_allocation_rate_def Let_def)
  have "rule_allocation_rate_dynamic e = \<lparr>cause = no_gc, nworkers = default_nworkers e\<rparr>
      \<and> rule_allocation_rate_dynamic_orig e = \<lparr>cause = no_gc, nworkers = default_nworkers e\<rparr>"
    if "\<not> is_time_trustable e"
    using that
    by (simp add: rule_allocation_rate_dynamic_def rule_allocation_rate_dynamic_orig_def
        request_of_cause_def)
  with sel show ?thesis
    by simp
qed

theorem rule_allocation_rate_selects_witness:
  "UseDynamicNumberOfGCThreads example_env \<and> \<not> UseNewCode example_env
   \<and> rule_allocation_rate example_env = \<lparr>cause = z_allocation_rate, nworkers = 3\<rparr>
   \<and> UseDynamicNumberOfGCThreads (example_env\<lparr>is_time_trustable := False, UseNewCode := True\<rparr>)
   \<and> UseNewCode (example_env\<lparr>is_time_trustable := False, UseNewCode := True\<rparr>)
   \<and> \<not> is_time_trustable (example_env\<lparr>is_time_trustable := False, UseNewCode := True\<rparr>)
   \<and> rule_allocation_rate (example_env\<lparr>is_time_trustable := False, UseNewCode := True\<rparr>)
       = \<lparr>cause = no_gc, nworkers = 8\<rparr>
   \<and> rule_allocation_rate_dynamic_orig (example_env\<lparr>is_time_trustable := False, UseNewCode := True\<rparr>)
       = \<lparr>cause = no_gc, nworkers = 8\<rparr>"
proof -
  let ?e = "example_env\<lparr>is_time_trustable := False, UseNewCode := True\<rparr>"
  have h: "UseDynamicNumberOfGCThreads example_env" "UseDynamicNumberOfGCThreads ?e"
    by simp_all
  have u: "\<not> UseNewCode example_env" "UseNewCode ?e" "\<not> is_time_trustable ?e"
    "default_nworkers ?e = 8"
    by simp_all
  from rule_allocation_rate_selects [OF h(1)] u(1) example_orig
  have a: "rule_allocation_rate example_env = \<lparr>cause = z_allocation_rate, nworkers = 3\<rparr>"
    by simp
  from rule_allocation_rate_selects [OF h(2)] u(3)
  have b: "rule_allocation_rate_dynamic_orig ?e = rule_allocation_rate_dynamic ?e"
    "rule_allocation_rate ?e = rule_allocation_rate_dynamic ?e"
    "rule_allocation_rate ?e = \<lparr>cause = no_gc, nworkers = default_nworkers ?e\<rparr>"
    by blast+
  from b have c: "rule_allocation_rate ?e = \<lparr>cause = no_gc, nworkers = 8\<rparr>"
    "rule_allocation_rate_dynamic_orig ?e = \<lparr>cause = no_gc, nworkers = 8\<rparr>"
    unfolding u(4) by simp_all
  from h u a c show ?thesis
    by blast
qed

text \<open>
  C2, as stated, fails when \<open>UseNewCode\<close> is off: on the example environment the rule
  returns the original variant's request with three workers, the new variant asks for two.
\<close>

theorem rule_allocation_rate_counterexample:
  "UseDynamicNumberOfGCThreads example_env
   \<and> rule_allocation_rate example_env \<noteq> rule_allocation_rate_dynamic example_env"
  by (simp add: rule_allocation_rate_def Let_def example_orig example_dynamic)

lemma execute_rules_find:
  "execute_rules rs e =
     (case find (\<lambda>r. cause r \<noteq> no_gc) (map (\<lambda>rule. rule e) rs) of
        None \<Rightarrow> request_of_cause e no_gc
      | Some r \<Rightarrow> r)"
  by (induction rs) (simp_all add: Let_def)

lemma find_cause: "find P xs = Some r \<Longrightarrow> P r"
  by (induction xs) (auto split: if_splits)

text \<open>
  C3. Every tick samples the allocation rate exactly once. If the driver is busy nothing
  is forwarded. Otherwise the rules are evaluated in the order allocation stall, warmup,
  timer, allocation rate, high usage, proactive, and exactly the first request whose cause
  is not \<open>_no_gc\<close> is forwarded to the driver: at most one request per tick, and never
  one without a cause.
\<close>

theorem tick_forwards_first_request:
  "nsamples (tick e d) = nsamples d + 1
   \<and> (driver_is_busy e \<longrightarrow> collected (tick e d) = collected d)
   \<and> (\<not> driver_is_busy e \<longrightarrow>
        collected (tick e d) = collected d @
          (case find (\<lambda>r. cause r \<noteq> no_gc)
                  [rule_allocation_stall e, rule_warmup e, rule_timer e,
                   rule_allocation_rate e, rule_high_usage e, rule_proactive e] of
             None \<Rightarrow> [] | Some r \<Rightarrow> [r]))
   \<and> length (collected (tick e d)) \<le> length (collected d) + 1
   \<and> (\<forall>r \<in> set (drop (length (collected d)) (collected (tick e d))). cause r \<noteq> no_gc)"
proof -
  let ?rs = "[rule_allocation_stall e, rule_warmup e, rule_timer e,
              rule_allocation_rate e, rule_high_usage e, rule_proactive e]"
  have dec: "make_gc_decision e =
      (case find (\<lambda>r. cause r \<noteq> no_gc) ?rs of None \<Rightarrow> request_of_cause e no_gc | Some r \<Rightarrow> r)"
    unfolding make_gc_decision_def execute_rules_find rules_def by simp
  show ?thesis
  proof (cases "find (\<lambda>r. cause r \<noteq> no_gc) ?rs")
    case None
    then have "cause (make_gc_decision e) = no_gc"
      unfolding dec by (simp add: request_of_cause_def)
    then have "tick e d = sample_allocation_rate d"
      by (simp add: tick_def Let_def)
    then show ?thesis
      using None by (simp add: sample_allocation_rate_def)
  next
    case (Some r)
    then have r: "cause r \<noteq> no_gc"
      by (rule find_cause)
    have "make_gc_decision e = r"
      unfolding dec using Some by simp
    then have "tick e d = (if driver_is_busy e then sample_allocation_rate d
        else (sample_allocation_rate d)\<lparr>collected := collected (sample_allocation_rate d) @ [r]\<rparr>)"
      using r by (simp add: tick_def Let_def)
    then show ?thesis
      using Some r by (simp add: sample_allocation_rate_def)
  qed
qed

lemma example_rules:
  "cause (rule_allocation_stall example_env) = no_gc"
  "cause (rule_warmup example_env) = no_gc"
  "cause (rule_timer example_env) = no_gc"
  "rule_allocation_rate example_env = \<lparr>cause = z_allocation_rate, nworkers = 3\<rparr>"
  by (simp_all add: rule_allocation_stall_def rule_warmup_def rule_timer_def request_of_cause_def
      rule_allocation_rate_def Let_def example_orig double_eval)

theorem tick_forwards_first_request_witness:
  "\<not> driver_is_busy example_env
   \<and> nsamples (tick example_env \<lparr>nsamples = 0, collected = []\<rparr>) = 1
   \<and> collected (tick example_env \<lparr>nsamples = 0, collected = []\<rparr>)
       = [\<lparr>cause = z_allocation_rate, nworkers = 3\<rparr>]"
  using tick_forwards_first_request [of example_env "\<lparr>nsamples = 0, collected = []\<rparr>"]
  by (simp add: example_rules)


section \<open>Properties of the worker and stripe affinity\<close>

lemma and_mask_mod: "(w::nat) AND (2 ^ k - 1) = w mod 2 ^ k"
  by (metis mask_eq_exp_minus_1 take_bit_eq_mask take_bit_eq_mod)

lemma fold_stripe_map_set: "fold stripe_map_set [0..<n] 0 = mask n"
proof (induction n)
  case 0
  show ?case by simp
next
  case (Suc n)
  have "fold stripe_map_set [0..<Suc n] 0 = stripe_map_set n (fold stripe_map_set [0..<n] 0)"
    by simp
  also have "\<dots> = mask n OR push_bit n 1"
    by (simp add: Suc.IH stripe_map_set_def)
  also have "\<dots> = mask (Suc n)"
    by (rule bit_word_eqI) (auto simp add: bit_simps less_Suc_eq)
  finally show ?case .
qed

lemma spill_floor:
  fixes i n s :: nat
  assumes "0 < s"
  shows "nat \<lfloor>real i * (real n / real s)\<rfloor> = (i * n) div s"
proof -
  have "real i * (real n / real s) = real (i * n) / real s"
    by simp
  then have "\<lfloor>real i * (real n / real s)\<rfloor> = \<lfloor>real (i * n) / real s\<rfloor>"
    by (rule arg_cong)
  also have "\<dots> = int ((i * n) div s)"
    by (rule floor_divide_of_nat_eq)
  finally show ?thesis by simp
qed

lemma spill_bound:
  fixes i n s :: nat
  assumes "i < s"
  shows "(i * n) div s < n \<or> n = 0"
proof (cases "n = 0")
  case True then show ?thesis by simp
next
  case False
  have "i * n < s * n"
    using assms False by simp
  then have "(i * n) div s < n"
    using assms by (simp add: less_mult_imp_div_less mult.commute)
  then show ?thesis by simp
qed

lemma card_residue:
  fixes q n s :: nat
  assumes "s < n"
  shows "card {w. w < q * n \<and> w mod n = s} = q"
proof -
  have "{w. w < q * n \<and> w mod n = s} = (\<lambda>j. j * n + s) ` {..<q}"
  proof (rule set_eqI, rule iffI)
    fix w assume "w \<in> {w. w < q * n \<and> w mod n = s}"
    then have w: "w < q * n" "w mod n = s" by simp_all
    have "w = (w div n) * n + s"
      using w(2) by (metis div_mult_mod_eq)
    moreover have "w div n < q"
      using w(1) assms by (simp add: less_mult_imp_div_less)
    ultimately show "w \<in> (\<lambda>j. j * n + s) ` {..<q}"
      by blast
  next
    fix w assume "w \<in> (\<lambda>j. j * n + s) ` {..<q}"
    then obtain j where j: "j < q" "w = j * n + s" by auto
    have "j * n + s < (j + 1) * n"
      using assms by simp
    also have "\<dots> \<le> q * n"
      using j(1) by (intro mult_le_mono1) simp
    finally have "w < q * n" using j(2) by simp
    moreover have "w mod n = s"
      using j(2) assms by simp
    ultimately show "w \<in> {w. w < q * n \<and> w mod n = s}" by simp
  qed
  moreover have "inj_on (\<lambda>j. j * n + s) {..<q}"
    using assms by (auto simp add: inj_on_def)
  ultimately show ?thesis
    by (simp add: card_image)
qed

lemma set_default_affinity_eq:
  assumes "nstripes = 2 ^ k" and "worker_id < W"
  shows "set_default_affinity nstripes W worker_id =
           Inr (if worker_id < (W div nstripes) * nstripes then worker_id mod nstripes
                else ((worker_id - (W div nstripes) * nstripes) * nstripes)
                       div (W - (W div nstripes) * nstripes),
                mask nstripes)"
proof -
  define L where "L = (W div nstripes) * nstripes"
  have pos: "0 < nstripes"
    using assms(1) by simp
  show ?thesis
  proof (cases "worker_id < L")
    case True
    have "worker_id AND (nstripes - 1) = worker_id mod nstripes"
      unfolding assms(1) by (rule and_mask_mod)
    moreover have "worker_id mod nstripes < nstripes"
      using pos by simp
    ultimately show ?thesis
      using True pos
      by (simp add: set_default_affinity_def Let_def L_def [symmetric] fold_stripe_map_set)
  next
    case False
    define sn where "sn = W - L"
    define sid where "sid = worker_id - L"
    have sn: "0 < sn" and sid: "sid < sn"
      using False assms(2) by (simp_all add: sn_def sid_def)
    have fl: "nat \<lfloor>real sid * (real nstripes / real sn)\<rfloor> = (sid * nstripes) div sn"
      using sn by (rule spill_floor)
    have "(sid * nstripes) div sn < nstripes"
      using spill_bound [OF sid, of nstripes] pos by simp
    then show ?thesis
      using False pos sn fl
      by (simp add: set_default_affinity_def Let_def L_def [symmetric] sn_def [symmetric]
          sid_def [symmetric] fold_stripe_map_set)
  qed
qed

text \<open>
  C8. For a stripe count that is a power of two and at most the worker count,
  \<open>set_default_affinity\<close> gives every worker id below the worker count an index below
  the stripe count (no error result); a spillover worker gets the index
  \<open>floor(spillover_worker_id * nstripes / spillover_nworkers)\<close>; every stripe is the home
  of at least \<open>floor(W / N)\<close> workers of the range below the spillover limit; and the
  stripe map has all stripes set (for stripe counts that fit the 32-bit map).
\<close>

theorem set_default_affinity_total:
  assumes "nstripes = 2 ^ k" and "nstripes \<le> W"
  shows "(\<forall>worker_id < W. \<exists>index m.
            set_default_affinity nstripes W worker_id = Inr (index, m) \<and> index < nstripes
            \<and> ((W div nstripes) * nstripes \<le> worker_id \<longrightarrow>
                 int index = \<lfloor>real (worker_id - (W div nstripes) * nstripes)
                               * real nstripes / real (W - (W div nstripes) * nstripes)\<rfloor>)
            \<and> (nstripes \<le> 32 \<longrightarrow> (\<forall>stripe < nstripes. stripe_map_get m stripe)))
       \<and> (\<forall>stripe < nstripes.
            W div nstripes \<le> card {worker_id. worker_id < (W div nstripes) * nstripes
                  \<and> (\<exists>m. set_default_affinity nstripes W worker_id = Inr (stripe, m))})"
proof (intro conjI allI impI)
  fix worker_id assume w: "worker_id < W"
  define L where "L = (W div nstripes) * nstripes"
  define index where "index = (if worker_id < L then worker_id mod nstripes
      else ((worker_id - L) * nstripes) div (W - L))"
  have pos: "0 < nstripes"
    using assms(1) by simp
  have eq: "set_default_affinity nstripes W worker_id = Inr (index, mask nstripes)"
    unfolding index_def L_def using assms(1) w by (rule set_default_affinity_eq)
  have bound: "index < nstripes"
  proof (cases "worker_id < L")
    case True
    then show ?thesis using pos by (simp add: index_def)
  next
    case False
    then have "worker_id - L < W - L"
      using w by simp
    from spill_bound [OF this, of nstripes] pos False show ?thesis
      by (simp add: index_def)
  qed
  have fl: "int index = \<lfloor>real (worker_id - L) * real nstripes / real (W - L)\<rfloor>"
    if "L \<le> worker_id"
  proof -
    have sn: "0 < W - L" using that w by simp
    have "index = ((worker_id - L) * nstripes) div (W - L)"
      using that by (simp add: index_def)
    then have "int index = int (((worker_id - L) * nstripes) div (W - L))"
      by simp
    also have "\<dots> = \<lfloor>real ((worker_id - L) * nstripes) / real (W - L)\<rfloor>"
      by (rule floor_divide_of_nat_eq [symmetric])
    finally show ?thesis by simp
  qed
  have bits: "\<forall>stripe < nstripes. stripe_map_get (mask nstripes) stripe" if "nstripes \<le> 32"
    using that by (simp add: stripe_map_get_def bit_mask_iff)
  show "\<exists>index m.
            set_default_affinity nstripes W worker_id = Inr (index, m) \<and> index < nstripes
            \<and> ((W div nstripes) * nstripes \<le> worker_id \<longrightarrow>
                 int index = \<lfloor>real (worker_id - (W div nstripes) * nstripes)
                               * real nstripes / real (W - (W div nstripes) * nstripes)\<rfloor>)
            \<and> (nstripes \<le> 32 \<longrightarrow> (\<forall>stripe < nstripes. stripe_map_get m stripe))"
    using eq bound fl bits unfolding L_def by blast
next
  fix stripe assume s: "stripe < nstripes"
  define L where "L = (W div nstripes) * nstripes"
  have LW: "L \<le> W"
    by (simp add: L_def)
  have "{worker_id. worker_id < L \<and> (\<exists>m. set_default_affinity nstripes W worker_id = Inr (stripe, m))}
      = {worker_id. worker_id < L \<and> worker_id mod nstripes = stripe}"
  proof (rule Collect_cong, rule conj_cong [OF refl])
    fix worker_id assume lt: "worker_id < L"
    then have "worker_id < W" using LW by simp
    with assms(1) have "set_default_affinity nstripes W worker_id
        = Inr (worker_id mod nstripes, mask nstripes)"
      using set_default_affinity_eq [of nstripes k worker_id W] lt by (simp add: L_def)
    then show "(\<exists>m. set_default_affinity nstripes W worker_id = Inr (stripe, m))
        \<longleftrightarrow> worker_id mod nstripes = stripe"
      by auto
  qed
  then have "card {worker_id. worker_id < L
        \<and> (\<exists>m. set_default_affinity nstripes W worker_id = Inr (stripe, m))} = W div nstripes"
    unfolding L_def using card_residue [OF s] by simp
  then show "W div nstripes \<le> card {worker_id. worker_id < (W div nstripes) * nstripes
        \<and> (\<exists>m. set_default_affinity nstripes W worker_id = Inr (stripe, m))}"
    by (simp add: L_def)
qed

lemma set_default_affinity_example:
  "set_default_affinity 4 6 5 = Inr (2, 15)"
proof -
  have "set_default_affinity (2 ^ 2) 6 5 = Inr (2, mask (2 ^ 2))"
    by (subst set_default_affinity_eq [of _ 2]) simp_all
  then show ?thesis by (simp add: mask_eq_exp_minus_1)
qed

theorem set_default_affinity_total_witness:
  "(4::nat) = 2 ^ 2 \<and> (4::nat) \<le> 6
   \<and> (\<exists>index m. set_default_affinity 4 6 5 = Inr (index, m) \<and> index < 4 \<and> int index = 2
         \<and> stripe_map_get m 3)
   \<and> 1 \<le> card {worker_id. worker_id < 4 \<and> (\<exists>m. set_default_affinity 4 6 worker_id = Inr (2, m))}"
proof -
  have h1: "(4::nat) = 2 ^ 2" by simp
  have h2: "(4::nat) \<le> 6" by simp
  note t = set_default_affinity_total [OF h1 h2]
  have d: "(6::nat) div 4 = 1" by simp
  from t have "\<forall>worker_id<6. \<exists>index m.
            set_default_affinity 4 6 worker_id = Inr (index, m) \<and> index < 4
            \<and> (4 \<le> worker_id \<longrightarrow> int index = \<lfloor>real (worker_id - 4) * real 4 / real (6 - 4)\<rfloor>)
            \<and> (\<forall>stripe < 4. stripe_map_get m stripe)"
    unfolding d by simp
  then have "\<exists>index m. set_default_affinity 4 6 5 = Inr (index, m) \<and> index < 4
            \<and> (4 \<le> (5::nat) \<longrightarrow> int index = \<lfloor>real (5 - 4) * real 4 / real (6 - 4)\<rfloor>)
            \<and> (\<forall>stripe < 4. stripe_map_get m stripe)"
    by (elim allE [of _ 5] impE) simp_all
  then obtain index m where im: "set_default_affinity 4 6 5 = Inr (index, m)" "index < 4"
    "int index = \<lfloor>real (5 - 4) * real 4 / real (6 - 4)\<rfloor>" "\<forall>stripe < 4. stripe_map_get m stripe"
    by auto
  have "\<lfloor>real (5 - 4) * real 4 / real (6 - 4)\<rfloor> = (2::int)"
    by simp
  with im have a: "\<exists>index m. set_default_affinity 4 6 5 = Inr (index, m) \<and> index < 4 \<and> int index = 2
         \<and> stripe_map_get m 3"
    by auto
  from t have "\<forall>stripe<4. 1 \<le> card {worker_id. worker_id < 4
        \<and> (\<exists>m. set_default_affinity 4 6 worker_id = Inr (stripe, m))}"
    unfolding d by simp
  then have b: "1 \<le> card {worker_id. worker_id < 4
        \<and> (\<exists>m. set_default_affinity 4 6 worker_id = Inr (2, m))}"
    by (elim allE [of _ 2] impE) simp_all
  from h1 h2 a b show ?thesis by blast
qed


section \<open>Properties of the array split\<close>

lemma usub64_eq: "b \<le> a \<Longrightarrow> a < 2 ^ 64 \<Longrightarrow> usub64 a b = a - b"
  unfolding usub64_def by (rule usub_wrap)

lemma uadd64_eq: "a + b < 2 ^ 64 \<Longrightarrow> uadd64 a b = a + b"
  unfolding uadd64_def by (rule mod_less)

lemma MinSize_pos: "0 < ZMarkPartialArrayMinSize"
  by (simp add: ZMarkPartialArrayMinSize_def ZMarkPartialArrayMinSizeShift_def)

lemma MinSize_even: "even ZMarkPartialArrayMinSize"
  by (simp add: ZMarkPartialArrayMinSize_def ZMarkPartialArrayMinSizeShift_def)

lemma MinSize_small: "2 * ZMarkPartialArrayMinSize < 2 ^ 64"
  by (simp add: ZMarkPartialArrayMinSize_def ZMarkPartialArrayMinSizeShift_def)

lemma tiles_le: "tiles rs lo hi \<Longrightarrow> lo \<le> hi"
  by (induction rs arbitrary: hi) auto

lemma tiles_append:
  "tiles xs mid hi \<Longrightarrow> tiles ys lo mid \<Longrightarrow> tiles (xs @ ys) lo hi"
proof (induction xs arbitrary: hi)
  case Nil
  then show ?case by simp
next
  case (Cons r xs)
  from Cons.prems(1) have r: "0 < snd r" "fst r + snd r = hi" "mid \<le> fst r" "tiles xs mid (fst r)"
    by simp_all
  from Cons.IH [OF r(4) Cons.prems(2)] have t: "tiles (xs @ ys) lo (fst r)" .
  from tiles_le [OF Cons.prems(2)] r(3) have "lo \<le> fst r" by simp
  with r t show ?case by simp
qed

lemma tiles_within:
  "tiles rs lo hi \<Longrightarrow> q \<in> set rs \<Longrightarrow> 0 < snd q \<and> lo \<le> fst q \<and> fst q + snd q \<le> hi"
proof (induction rs arbitrary: hi)
  case Nil
  then show ?case by simp
next
  case (Cons r rs)
  from Cons.prems(1) have r: "0 < snd r" "fst r + snd r = hi" "lo \<le> fst r" "tiles rs lo (fst r)"
    by simp_all
  show ?case
  proof (cases "q = r")
    case True
    with r show ?thesis by simp
  next
    case False
    with Cons.prems(2) have "q \<in> set rs" by simp
    from Cons.IH [OF r(4) this] r(2) show ?thesis by simp
  qed
qed

lemma tiles_union:
  "tiles rs lo hi \<Longrightarrow> (\<Union>r \<in> set rs. range_of r) = {lo..<hi}"
proof (induction rs arbitrary: hi)
  case Nil
  then show ?case by simp
next
  case (Cons r rs)
  from Cons.prems have r: "0 < snd r" "fst r + snd r = hi" "lo \<le> fst r" "tiles rs lo (fst r)"
    by simp_all
  have "(\<Union>q \<in> set (r # rs). range_of q) = range_of r \<union> (\<Union>q \<in> set rs. range_of q)"
    by simp
  also have "\<dots> = {fst r..<hi} \<union> {lo..<fst r}"
    using Cons.IH [OF r(4)] r(2) by (simp add: range_of_def)
  also have "\<dots> = {lo..<hi}"
    using r by auto
  finally show ?case .
qed

lemma tiles_disjoint:
  "tiles rs lo hi \<Longrightarrow> disjoint_ranges rs"
proof (induction rs arbitrary: hi)
  case Nil
  then show ?case by simp
next
  case (Cons r rs)
  from Cons.prems have r: "0 < snd r" "fst r + snd r = hi" "lo \<le> fst r" "tiles rs lo (fst r)"
    by simp_all
  have "range_of r \<inter> range_of q = {}" if "q \<in> set rs" for q
  proof -
    from tiles_within [OF r(4) that] have "fst q + snd q \<le> fst r" by simp
    then show ?thesis by (auto simp add: range_of_def)
  qed
  with Cons.IH [OF r(4)] show ?case by simp
qed

lemma half_rounded_up:
  fixes k h t :: nat
  assumes "0 < h" and t: "t + 1 = 2 * h"
  shows "(k * h + t) div (2 * h) = (k + 1) div 2"
proof -
  have nz: "2 * h \<noteq> 0" using assms(1) by simp
  have tl: "t < 2 * h" using t by linarith
  show ?thesis
  proof (cases "even k")
    case True
    then obtain j where k: "k = 2 * j" by (elim evenE)
    have "k * h + t = t + j * (2 * h)"
      unfolding k by (simp add: mult.commute mult.left_commute)
    then have "(k * h + t) div (2 * h) = (t + j * (2 * h)) div (2 * h)"
      by (rule arg_cong)
    also have "\<dots> = j + t div (2 * h)"
      using nz by (rule div_mult_self1)
    also have "\<dots> = j"
      using tl by simp
    also have "j = (k + 1) div 2"
      unfolding k by simp
    finally show ?thesis .
  next
    case False
    then obtain j where k: "k = 2 * j + 1" by (elim oddE)
    define u where "u = t - h"
    have u: "t = h + u" "u < h"
      using t assms(1) unfolding u_def by linarith+
    have "k * h + t = u + (j + 1) * (2 * h)"
      unfolding k u(1) by (simp add: add_mult_distrib mult.commute mult.left_commute)
    then have "(k * h + t) div (2 * h) = (u + (j + 1) * (2 * h)) div (2 * h)"
      by (rule arg_cong)
    also have "\<dots> = (j + 1) + u div (2 * h)"
      using nz by (rule div_mult_self1)
    also have "\<dots> = j + 1"
      using u(2) by simp
    also have "j + 1 = (k + 1) div 2"
      unfolding k by simp
    finally show ?thesis .
  qed
qed

lemma align_down_multiple: "0 < a \<Longrightarrow> align_down (k * a) a = k * a"
  by (simp add: align_down_def)

lemma align_up_half:
  fixes k M :: nat
  assumes "0 < M" and "even M" and "(k * M) div 2 + (M - 1) < 2 ^ 64"
  shows "align_up ((k * M) div 2) M = ((k + 1) div 2) * M"
proof -
  from assms(2) obtain h where M: "M = 2 * h" by (elim evenE)
  with assms(1) have h: "0 < h" by simp
  have half: "(k * M) div 2 = k * h"
    unfolding M by simp
  have t: "(M - 1) + 1 = 2 * h"
    using assms(1) unfolding M by linarith
  have "uadd64 ((k * M) div 2) (M - 1) = (k * M) div 2 + (M - 1)"
    using assms(3) by (rule uadd64_eq)
  then have "align_up ((k * M) div 2) M = ((k * h + (M - 1)) div (2 * h)) * M"
    unfolding align_up_def align_down_def half by (simp only: M [symmetric])
  then show ?thesis
    by (simp only: half_rounded_up [OF h t])
qed

lemma half_bound:
  fixes k M ms :: nat
  assumes "0 < M" and "even M" and "2 * M < B" and "ms + k * M < B" and "0 < k"
  shows "(k * M) div 2 + (M - 1) < B"
proof -
  from assms(2) obtain h where M: "M = 2 * h" by (elim evenE)
  have half: "(k * M) div 2 = k * h"
    unfolding M by simp
  have kM: "k * M = 2 * (k * h)"
    unfolding M by simp
  show ?thesis
  proof (cases "k = 1")
    case True
    then have "k * h = h" by simp
    then show ?thesis
      using assms(1,3) unfolding half M by linarith
  next
    case False
    with assms(5) have "2 \<le> k" by simp
    then have "2 * h \<le> k * h" by (rule mult_le_mono1)
    then show ?thesis
      using assms(1,4) unfolding half kM M by linarith
  qed
qed

lemma push_middle_tiles:
  assumes "ms + k * ZMarkPartialArrayMinSize < 2 ^ 64"
  shows "\<exists>L. push_middle ms (ms + k * ZMarkPartialArrayMinSize) acc = Some (acc @ L)
             \<and> tiles L ms (ms + k * ZMarkPartialArrayMinSize)
             \<and> (\<forall>q \<in> set L. \<exists>j. fst q = ms + j * ZMarkPartialArrayMinSize)"
  using assms
proof (induction k arbitrary: acc rule: less_induct)
  case (less k)
  let ?M = ZMarkPartialArrayMinSize
  show ?case
  proof (cases "k = 0")
    case True
    have "push_middle ms ms acc = Some acc"
      by (subst push_middle.simps) simp
    then show ?thesis
      using True by simp
  next
    case False
    define h where "h = (k + 1) div 2"
    have h: "0 < h" "h \<le> k"
      using False unfolding h_def by linarith+
    define pa where "pa = ms + k * ?M"
    define pa1 where "pa1 = ms + (k - h) * ?M"
    have paB: "pa < 2 ^ 64"
      using less.prems unfolding pa_def .
    have kM: "k * ?M = (k - h) * ?M + h * ?M"
      using h(2) by (metis add_mult_distrib le_add_diff_inverse2)
    have hpos: "0 < h * ?M"
      using h(1) MinSize_pos by simp
    have gt: "ms < pa"
      using False MinSize_pos unfolding pa_def by simp
    have "usub64 pa ms = pa - ms"
      using paB by (intro usub64_eq) (simp add: pa_def)
    then have sub: "usub64 pa ms = k * ?M"
      unfolding pa_def by simp
    have "(k * ?M) div 2 + (?M - 1) < 2 ^ 64"
      using MinSize_pos MinSize_even MinSize_small less.prems False
      by (intro half_bound [where ms = ms]) simp_all
    with MinSize_pos MinSize_even have ps: "align_up ((k * ?M) div 2) ?M = h * ?M"
      unfolding h_def by (rule align_up_half)
    have pa_eq: "pa = pa1 + h * ?M"
      unfolding pa_def pa1_def using kM by linarith
    have "usub64 pa (h * ?M) = pa - h * ?M"
      using paB pa_eq by (intro usub64_eq) simp_all
    then have sub1: "usub64 pa (h * ?M) = pa1"
      using pa_eq by simp
    have step: "push_middle ms pa acc = push_middle ms pa1 (acc @ [(pa1, h * ?M)])"
      by (subst push_middle.simps) (simp add: gt Let_def sub ps sub1)
    have "k - h < k"
      using h False by linarith
    moreover have "ms + (k - h) * ?M < 2 ^ 64"
      using paB pa_eq unfolding pa1_def by linarith
    ultimately obtain L where L: "push_middle ms pa1 (acc @ [(pa1, h * ?M)]) = Some ((acc @ [(pa1, h * ?M)]) @ L)"
      "tiles L ms pa1" "\<forall>q \<in> set L. \<exists>j. fst q = ms + j * ?M"
      using less.IH [of "k - h" "acc @ [(pa1, h * ?M)]"] unfolding pa1_def by blast
    have "push_middle ms pa acc = Some (acc @ ((pa1, h * ?M) # L))"
      unfolding step L(1) by simp
    moreover have "tiles ((pa1, h * ?M) # L) ms pa"
      using L(2) hpos pa_eq by (simp add: pa1_def)
    moreover have "\<forall>q \<in> set ((pa1, h * ?M) # L). \<exists>j. fst q = ms + j * ?M"
      using L(3) by (auto simp add: pa1_def)
    ultimately show ?thesis
      unfolding pa_def by blast
  qed
qed

lemma align_up_succ:
  assumes "0 < M" and "addr + M < 2 ^ 64"
  shows "align_up (addr + 1) M = (addr div M + 1) * M"
proof -
  have "addr + 1 + (M - 1) = addr + M"
    using assms(1) by linarith
  moreover have "uadd64 (addr + 1) (M - 1) = addr + 1 + (M - 1)"
    using assms by (intro uadd64_eq) linarith
  ultimately have "uadd64 (addr + 1) (M - 1) = addr + M"
    by simp
  then have "align_up (addr + 1) M = ((addr + M) div M) * M"
    by (simp add: align_up_def align_down_def)
  moreover have "(addr + M) div M = addr div M + 1"
    using assms(1) by simp
  ultimately show ?thesis by simp
qed

text \<open>
  C7. For an array range \<open>[addr, addr + size)\<close> of 64-bit addresses with
  \<open>size > ZMarkPartialArrayMinSize\<close>, \<open>follow_large_array\<close> returns; it follows inline
  exactly the leading range \<open>[addr, middle_start)\<close>, which is not empty; every range it
  pushes starts at a multiple of \<open>ZMarkPartialArrayMinSize\<close> and is not empty; the
  pushed ranges and the leading range are pairwise disjoint, and together they are exactly
  \<open>[addr, addr + size)\<close>.
\<close>

theorem follow_large_array_splits:
  assumes "ZMarkPartialArrayMinSize < size'" and "addr + size' < 2 ^ 64"
  shows "\<exists>pushed middle_start.
           follow_large_array addr size' = Some (pushed, (addr, middle_start - addr))
         \<and> middle_start = align_up (addr + 1) ZMarkPartialArrayMinSize
         \<and> addr < middle_start
         \<and> (\<forall>r \<in> set pushed. ZMarkPartialArrayMinSize dvd fst r \<and> 0 < snd r)
         \<and> disjoint_ranges (pushed @ [(addr, middle_start - addr)])
         \<and> range_of (addr, middle_start - addr) \<union> (\<Union>r \<in> set pushed. range_of r)
             = {addr ..< addr + size'}"
proof -
  let ?M = ZMarkPartialArrayMinSize
  define e where "e = addr + size'"
  define ms where "ms = (addr div ?M + 1) * ?M"
  define c where "c = (e - ms) div ?M"
  define me where "me = ms + c * ?M"
  define pushed0 where "pushed0 = (if me < e then [(me, e - me)] else [])"
  have eB: "e < 2 ^ 64"
    using assms(2) unfolding e_def .
  have end_eq: "uadd64 addr size' = e"
    unfolding e_def using assms(2) by (rule uadd64_eq)
  have "addr + 1 < 2 ^ 64"
    using assms MinSize_pos by linarith
  then have start1: "uadd64 addr 1 = addr + 1"
    by (rule uadd64_eq)
  have "addr + ?M < 2 ^ 64"
    using assms by linarith
  with MinSize_pos have ms_eq: "align_up (addr + 1) ?M = ms"
    unfolding ms_def by (rule align_up_succ)
  have dm: "addr = (addr div ?M) * ?M + addr mod ?M"
    by simp
  have ml: "addr mod ?M < ?M"
    using MinSize_pos by simp
  have ms_exp: "ms = (addr div ?M) * ?M + ?M"
    unfolding ms_def by simp
  have lead: "addr < ms" "ms \<le> addr + ?M"
    using dm ml unfolding ms_exp by linarith+
  have ms_e: "ms < e"
    using lead(2) assms(1) unfolding e_def by linarith
  have sub_e: "usub64 e ms = e - ms"
    using ms_e eB by (intro usub64_eq) simp_all
  have c_le: "c * ?M \<le> e - ms"
    unfolding c_def by simp
  then have me_le: "me \<le> e"
    unfolding me_def using ms_e by linarith
  have msz: "align_down (usub64 e ms) ?M = c * ?M"
    unfolding sub_e align_down_def c_def ..
  have "ms + c * ?M < 2 ^ 64"
    using me_le eB unfolding me_def by linarith
  then have me_eq: "uadd64 ms (c * ?M) = me"
    unfolding me_def by (rule uadd64_eq)
  have sub_me: "usub64 e me = e - me"
    using me_le eB by (intro usub64_eq)
  have sub_lead: "usub64 ms addr = ms - addr"
    using lead(1) ms_e eB by (intro usub64_eq) linarith+
  have "ms + c * ?M < 2 ^ 64"
    using me_le eB unfolding me_def by linarith
  from push_middle_tiles [OF this, of pushed0]
  obtain L where L: "push_middle ms me pushed0 = Some (pushed0 @ L)" "tiles L ms me"
    "\<forall>q \<in> set L. \<exists>j. fst q = ms + j * ?M"
    unfolding me_def by blast
  have fla: "follow_large_array addr size' = Some (pushed0 @ L, (addr, ms - addr))"
    unfolding follow_large_array_def Let_def end_eq start1 ms_eq msz me_eq sub_me sub_lead
      pushed0_def [symmetric] L(1)
    by simp
  have t0: "tiles pushed0 me e"
    using me_le unfolding pushed0_def by simp
  have t1: "tiles (pushed0 @ L) ms e"
    using t0 L(2) by (rule tiles_append)
  have t2: "tiles [(addr, ms - addr)] addr ms"
    using lead(1) by simp
  have t3: "tiles ((pushed0 @ L) @ [(addr, ms - addr)]) addr e"
    using t1 t2 by (rule tiles_append)
  have al0: "?M dvd fst q" if "q \<in> set pushed0" for q
  proof -
    from that have "fst q = me"
      unfolding pushed0_def by (simp split: if_splits)
    also have "me = (addr div ?M + 1 + c) * ?M"
      unfolding me_def ms_def by (simp add: add_mult_distrib)
    finally show ?thesis by simp
  qed
  have al1: "?M dvd fst q" if "q \<in> set L" for q
  proof -
    from L(3) that obtain j where "fst q = ms + j * ?M" by blast
    also have "\<dots> = (addr div ?M + 1 + j) * ?M"
      unfolding ms_def by (simp add: add_mult_distrib)
    finally show ?thesis by simp
  qed
  have al: "\<forall>r \<in> set (pushed0 @ L). ?M dvd fst r \<and> 0 < snd r"
    using al0 al1 tiles_within [OF t1] by auto
  have dj: "disjoint_ranges ((pushed0 @ L) @ [(addr, ms - addr)])"
    using t3 by (rule tiles_disjoint)
  have "(\<Union>r \<in> set ((pushed0 @ L) @ [(addr, ms - addr)]). range_of r) = {addr..<e}"
    using t3 by (rule tiles_union)
  then have un: "range_of (addr, ms - addr) \<union> (\<Union>r \<in> set (pushed0 @ L). range_of r) = {addr..<e}"
    by (simp add: Un_commute)
  show ?thesis
    using fla ms_eq lead(1) al dj un unfolding e_def by blast
qed

lemma MinSize_value: "ZMarkPartialArrayMinSize = 4096"
  by (simp add: ZMarkPartialArrayMinSize_def ZMarkPartialArrayMinSizeShift_def)

lemma follow_large_array_example:
  "follow_large_array 100 10000 = Some ([(8192, 1908), (4096, 4096)], (100, 3996))"
proof -
  have w: "uadd64 100 10000 = 10100" "uadd64 100 1 = 101" "uadd64 101 4095 = 4196"
    "uadd64 4096 4096 = 8192" "uadd64 2048 4095 = 6143" "uadd64 0 4095 = 4095"
    by (simp_all add: uadd64_def)
  have u: "usub64 10100 4096 = 6004" "usub64 10100 8192 = 1908" "usub64 8192 4096 = 4096"
    "usub64 4096 100 = 3996"
    by (simp_all add: usub64_def)
  have a: "align_up 101 4096 = 4096" "align_down 6004 4096 = 4096" "align_up 2048 4096 = 4096"
    by (simp_all add: align_up_def align_down_def w)
  have p2: "push_middle 4096 4096 [(8192, 1908), (4096, 4096)] = Some [(8192, 1908), (4096, 4096)]"
    by (subst push_middle.simps) simp
  have p1: "push_middle 4096 8192 [(8192, 1908)] = Some [(8192, 1908), (4096, 4096)]"
    by (subst push_middle.simps) (simp add: MinSize_value u a p2)
  show ?thesis
    unfolding follow_large_array_def Let_def MinSize_value w a u
    by (simp add: p1)
qed

theorem follow_large_array_splits_witness:
  "ZMarkPartialArrayMinSize < 10000 \<and> (100::nat) + 10000 < 2 ^ 64
   \<and> (\<exists>pushed middle_start.
         follow_large_array 100 10000 = Some (pushed, (100, middle_start - 100))
       \<and> middle_start = align_up (100 + 1) ZMarkPartialArrayMinSize
       \<and> 100 < middle_start
       \<and> (\<forall>r \<in> set pushed. ZMarkPartialArrayMinSize dvd fst r \<and> 0 < snd r)
       \<and> disjoint_ranges (pushed @ [(100, middle_start - 100)])
       \<and> range_of (100, middle_start - 100) \<union> (\<Union>r \<in> set pushed. range_of r)
           = {100 ..< 100 + 10000})"
proof -
  have h1: "ZMarkPartialArrayMinSize < 10000"
    by (simp add: MinSize_value)
  have h2: "(100::nat) + 10000 < 2 ^ 64"
    by simp
  from follow_large_array_splits [OF h1 h2] h1 h2 show ?thesis
    by blast
qed


section \<open>Properties of marking an entry\<close>

text \<open>
  C10. When the page of an address is allocating, \<open>try_mark_object\<close> returns false
  and changes nothing: no mark attempt is made and the live objects and bytes stay as they
  are. \<open>mark_and_follow\<close> then drops an object entry for that address without following
  anything.
\<close>

theorem try_mark_object_allocating:
  assumes "is_allocating (pages h (page_table h addr))"
  shows "try_mark_object k addr finalizable h = (False, h)
       \<and> mark_and_follow k (Object_entry addr follow finalizable) h = h"
proof -
  have t: "try_mark_object k addr finalizable h = (False, h)"
    using assms by (simp add: try_mark_object_def Let_def)
  then have "mark_and_follow k (Object_entry addr follow finalizable) h = h"
    by (simp add: mark_and_follow_def)
  with t show ?thesis by simp
qed

theorem try_mark_object_allocating_witness:
  "is_allocating (pages example_heap (page_table example_heap 2097160))
   \<and> try_mark_object example_collaborators 2097160 False example_heap = (False, example_heap)
   \<and> mark_and_follow example_collaborators (Object_entry 2097160 True False) example_heap
       = example_heap"
proof -
  have h: "is_allocating (pages example_heap (page_table example_heap 2097160))"
    by (simp add: example_heap_def)
  from try_mark_object_allocating [OF h] h show ?thesis
    by blast
qed

lemma mark_and_follow_example:
  "followed (mark_and_follow example_collaborators (Object_entry 16 True False) example_heap)
     = [Follow_object 16 False]"
  "live_bytes (mark_and_follow example_collaborators (Object_entry 16 True False) example_heap) 0 = 24"
  by (simp_all add: mark_and_follow_def try_mark_object_def Let_def example_heap_def
      example_collaborators_def inc_live_def align_up_def align_down_def uadd64_def)


section \<open>Properties of the restart loop\<close>

lemma restart_limit:
  "nrestart s = ZMarkRestartMax env * (ncontinue s + 1) \<Longrightarrow> restart env s = (False, s)"
  by (simp add: restart_def)

lemma restart_flushes:
  assumes "nrestart s \<noteq> ZMarkRestartMax env * (ncontinue s + 1)"
  shows "nflushes (snd (restart env s)) = nflushes s + 1"
    and "fst (restart env s) \<longleftrightarrow> has_active_stripes (mark_terminate (snd (restart env s)))"
    and "mark_terminate (snd (restart env s))
           = set_active_stripes (published env (nflushes s)) (mark_terminate s)"
    and "nrestart (snd (restart env s)) = (if fst (restart env s) then nrestart s + 1 else nrestart s)"
  using assms by (simp_all add: restart_def Let_def flush_threads_def)

lemma restart_counters:
  "ncontinue (snd (restart env s)) = ncontinue s" "ntasks (snd (restart env s)) = ntasks s"
  by (simp_all add: restart_def Let_def flush_threads_def)

lemma restart_true:
  assumes "fst (restart env s)"
  shows "nrestart s \<noteq> ZMarkRestartMax env * (ncontinue s + 1)"
    and "nrestart (snd (restart env s)) = nrestart s + 1"
  using assms by (auto simp add: restart_def Let_def flush_threads_def split: if_splits)

lemma unat_sub_succ:
  fixes m n :: "32 word"
  assumes "n \<noteq> m"
  shows "unat (m - (n + 1)) + 1 = unat (m - n)"
proof -
  have nz: "m - n \<noteq> 0" using assms by simp
  have a: "unat (m - n - 1) = unat (m - n) - 1"
    using nz by (rule unat_minus_one)
  have b: "0 < unat (m - n)"
    using nz by (simp add: unat_gt_0)
  have e: "m - (n + 1) = m - n - 1" by simp
  have "unat (m - (n + 1)) = unat (m - n) - 1"
    unfolding e by (rule a)
  with b show ?thesis by linarith
qed

lemma mark_loop_ntasks:
  "ntasks s < ntasks (mark_loop env s)
   \<and> ntasks (mark_loop env s) \<le> ntasks s + unat (ZMarkRestartMax env * (ncontinue s + 1) - nrestart s) + 1"
proof (induction env s rule: mark_loop.induct)
  case (1 env s)
  define s1 where "s1 = run_mark_task env s"
  have s1f: "ntasks s1 = ntasks s + 1" "ncontinue s1 = ncontinue s" "nrestart s1 = nrestart s"
    by (simp_all add: s1_def run_mark_task_def)
  show ?case
  proof (cases "fst (restart env s1)")
    case False
    then have "mark_loop env s = snd (restart env s1)"
      by (subst mark_loop.simps) (simp add: s1_def Let_def)
    then show ?thesis
      by (simp add: restart_counters s1f)
  next
    case True
    then have ml: "mark_loop env s = mark_loop env (snd (restart env s1))"
      by (subst mark_loop.simps) (simp add: s1_def Let_def)
    from True have ne: "nrestart s \<noteq> ZMarkRestartMax env * (ncontinue s + 1)"
      and nr: "nrestart (snd (restart env s1)) = nrestart s + 1"
      using restart_true [of env s1] by (simp_all add: s1f)
    from "1.IH" [OF s1_def True]
    have ih: "ntasks (snd (restart env s1)) < ntasks (mark_loop env (snd (restart env s1)))"
      "ntasks (mark_loop env (snd (restart env s1)))
         \<le> ntasks (snd (restart env s1))
           + unat (ZMarkRestartMax env * (ncontinue (snd (restart env s1)) + 1)
                   - nrestart (snd (restart env s1))) + 1"
      by simp_all
    from unat_sub_succ [OF ne]
    have "unat (ZMarkRestartMax env * (ncontinue s + 1) - (nrestart s + 1)) + 1
           = unat (ZMarkRestartMax env * (ncontinue s + 1) - nrestart s)" .
    with ih show ?thesis
      unfolding ml by (simp add: restart_counters s1f nr)
  qed
qed

lemma word_sub_le_unat:
  fixes m n :: "32 word"
  shows "n \<le> m \<Longrightarrow> unat (m - n) \<le> unat m"
  by (simp add: unat_sub)

text \<open>
  C9. \<open>restart\<close> returns false without flushing when the restart counter equals
  \<open>ZMarkRestartMax * (ncontinue + 1)\<close>. Otherwise it flushes, and it returns true,
  with the restart counter incremented, exactly when the termination state has active
  stripes after the flush. The loop of \<open>mark\<close> always returns; it runs the mark task at
  least once and at most \<open>max - nrestart + 1\<close> times (in 32-bit arithmetic), hence at
  most \<open>ZMarkRestartMax * (ncontinue + 1) + 1\<close> times when the restart counter has not
  passed the limit, which \<open>prepare_mark\<close> establishes and \<open>restart\<close> preserves.
\<close>

theorem restart_bounds_mark:
  "(nrestart s = ZMarkRestartMax env * (ncontinue s + 1) \<longrightarrow> restart env s = (False, s))
   \<and> (nrestart s \<noteq> ZMarkRestartMax env * (ncontinue s + 1) \<longrightarrow>
        nflushes (snd (restart env s)) = nflushes s + 1
        \<and> mark_terminate (snd (restart env s))
             = set_active_stripes (published env (nflushes s)) (mark_terminate s)
        \<and> (fst (restart env s) \<longleftrightarrow> has_active_stripes (mark_terminate (snd (restart env s))))
        \<and> nrestart (snd (restart env s)) = (if fst (restart env s) then nrestart s + 1 else nrestart s))
   \<and> ntasks s < ntasks (mark env initial s)
   \<and> ntasks (mark env initial s) - ntasks s
        \<le> unat (ZMarkRestartMax env * (ncontinue s + 1) - nrestart s) + 1
   \<and> (nrestart s \<le> ZMarkRestartMax env * (ncontinue s + 1) \<longrightarrow>
        ntasks (mark env initial s) - ntasks s \<le> unat (ZMarkRestartMax env * (ncontinue s + 1)) + 1)"
proof -
  define s0 where "s0 = (if initial then s\<lparr>nroots := nroots s + 1\<rparr> else s)"
  have s0f: "ntasks s0 = ntasks s" "ncontinue s0 = ncontinue s" "nrestart s0 = nrestart s"
    by (simp_all add: s0_def)
  have m: "mark env initial s = mark_loop env s0"
    by (simp add: mark_def s0_def)
  have b0: "ntasks s < ntasks (mark_loop env s0)
       \<and> ntasks (mark_loop env s0)
            \<le> ntasks s + unat (ZMarkRestartMax env * (ncontinue s + 1) - nrestart s) + 1"
    using mark_loop_ntasks [of s0 env] by (simp only: s0f)
  have b: "ntasks s < ntasks (mark env initial s)"
    "ntasks (mark env initial s) - ntasks s
       \<le> unat (ZMarkRestartMax env * (ncontinue s + 1) - nrestart s) + 1"
    unfolding m using b0 by linarith+
  have c: "ntasks (mark env initial s) - ntasks s \<le> unat (ZMarkRestartMax env * (ncontinue s + 1)) + 1"
    if "nrestart s \<le> ZMarkRestartMax env * (ncontinue s + 1)"
    using b(2) word_sub_le_unat [OF that] by linarith
  show ?thesis
    using restart_limit [of s env] restart_flushes [of s env] b c by blast
qed


lemma prepare_mark_limit:
  "nrestart (prepare_mark s) \<le> ZMarkRestartMax env * (ncontinue (prepare_mark s) + 1)"
  by (simp add: prepare_mark_def)

lemma restart_keeps_limit:
  assumes "nrestart s \<le> ZMarkRestartMax env * (ncontinue s + 1)"
  shows "nrestart (snd (restart env s))
           \<le> ZMarkRestartMax env * (ncontinue (snd (restart env s)) + 1)"
proof (cases "fst (restart env s)")
  case True
  from restart_true [OF True] assms
  have "nrestart s < ZMarkRestartMax env * (ncontinue s + 1)"
    and nr: "nrestart (snd (restart env s)) = nrestart s + 1"
    by simp_all
  then have "nrestart s + 1 \<le> ZMarkRestartMax env * (ncontinue s + 1)"
    by (simp add: inc_le)
  then show ?thesis
    by (simp add: nr restart_counters)
next
  case False
  then have "nrestart (snd (restart env s)) = nrestart s"
    by (auto simp add: restart_def Let_def flush_threads_def split: if_splits)
  with assms show ?thesis
    by (simp add: restart_counters)
qed

lemma example_mark_fields [simp]:
  "ZMarkRestartMax example_mark_env = 5"
  "after_task example_mark_env k = ZMarkTerminateState terminate 0"
  "published example_mark_env k = (if k < 2 then 1 else 0)"
  "nrestart example_mark_state = 0" "ncontinue example_mark_state = 0"
  "ntasks example_mark_state = 0" "nflushes example_mark_state = 0"
  "mark_terminate example_mark_state = 0"
  by (simp_all add: example_mark_env_def example_mark_state_def)

theorem restart_bounds_mark_witness:
  "nrestart example_mark_state \<noteq> ZMarkRestartMax example_mark_env * (ncontinue example_mark_state + 1)
   \<and> nrestart example_mark_state \<le> ZMarkRestartMax example_mark_env * (ncontinue example_mark_state + 1)
   \<and> nflushes (snd (restart example_mark_env example_mark_state)) = 1
   \<and> fst (restart example_mark_env example_mark_state)
   \<and> nrestart (snd (restart example_mark_env example_mark_state)) = 1
   \<and> 0 < ntasks (mark example_mark_env True example_mark_state)
   \<and> ntasks (mark example_mark_env True example_mark_state) \<le> 6"
proof -
  have h: "nrestart example_mark_state
      \<noteq> ZMarkRestartMax example_mark_env * (ncontinue example_mark_state + 1)"
    "nrestart example_mark_state
      \<le> ZMarkRestartMax example_mark_env * (ncontinue example_mark_state + 1)"
    by simp_all
  have a: "has_active_stripes (set_active_stripes 1 0)"
    by (simp add: has_active_stripes_def)
  have u: "unat (5 :: 32 word) = 5"
    by simp
  from restart_bounds_mark [of example_mark_state example_mark_env True] h a u
  show ?thesis
    by simp
qed

end

